(* ===== verification/Prelude.thy ===== *)
theory Prelude
  imports Main "HOL-Library.AList" "HOL-Library.Sublist"
begin

text \<open>
  Shared vocabulary of the model of \<^verbatim>\<open>src/main.py\<close>: the Python exceptions the code
  can raise, decimal printing and reading of naturals (\<^verbatim>\<open>str(n)\<close>, \<^verbatim>\<open>f"{n:02d}"\<close>,
  \<^verbatim>\<open>int(s)\<close>), the whitespace of \<^verbatim>\<open>str.split()\<close> and \<^verbatim>\<open>str.strip()\<close>, and the
  facts on association lists and substrings that the component theories share.
  Python strings are modelled as \<open>string\<close> (lists of code points below 256).
\<close>

named_theorems digit_simps "evaluation facts on single decimal digits"
named_theorems store_simps "lookup facts of the task store"
named_theorems heap_simps "facts on the heap-level task store"

datatype py_error =
    KeyError      \<comment> \<open>a missing dictionary key\<close>
  | AttributeError \<comment> \<open>a method called on \<^verbatim>\<open>None\<close>\<close>
  | TypeError     \<comment> \<open>\<^verbatim>\<open>int(None)\<close>\<close>
  | SendFailed int \<comment> \<open>\<^verbatim>\<open>bot.send_message\<close> raised for this chat\<close>
  | ValueError    \<comment> \<open>\<^verbatim>\<open>int(s)\<close> of a non-number, tuple unpacking of the wrong length,
                      \<^verbatim>\<open>datetime(y, m, d)\<close> of an invalid date\<close>
  | IndexError    \<comment> \<open>a list index out of range\<close>
  | RuntimeError  \<comment> \<open>a dict whose size changed while it was iterated over\<close>

section \<open>Decimal digits\<close>

definition digit_char :: "nat \<Rightarrow> char" where
  "digit_char n = ''0123456789'' ! n"

definition is_digit :: "char \<Rightarrow> bool" where
  "is_digit c \<longleftrightarrow> 48 \<le> (of_char c :: nat) \<and> (of_char c :: nat) \<le> 57"

definition digit_val :: "char \<Rightarrow> nat" where
  "digit_val c = of_char c - 48"

text \<open>\<^verbatim>\<open>str(n)\<close> for a non-negative Python int.\<close>

fun show_nat :: "nat \<Rightarrow> string" where
  "show_nat n = (if n < 10 then [digit_char n] else show_nat (n div 10) @ [digit_char (n mod 10)])"

declare show_nat.simps [simp del]

text \<open>\<^verbatim>\<open>int(s)\<close> for a string of ASCII digits.\<close>

definition read_digits :: "string \<Rightarrow> nat" where
  "read_digits cs = foldl (\<lambda>a c. 10 * a + digit_val c) 0 cs"

text \<open>\<^verbatim>\<open>f"{n:02d}"\<close>, and the \<^verbatim>\<open>%d %m %H %M\<close> fields of \<^verbatim>\<open>strftime\<close>.\<close>

definition pad2 :: "nat \<Rightarrow> string" where
  "pad2 n = (if n < 10 then CHR ''0'' # show_nat n else show_nat n)"

text \<open>The \<^verbatim>\<open>%Y\<close> field of \<^verbatim>\<open>strftime\<close>: four digits, zero-padded.\<close>

definition pad4 :: "nat \<Rightarrow> string" where
  "pad4 n = replicate (4 - length (show_nat n)) (CHR ''0'') @ show_nat n"

section \<open>Whitespace, \<^verbatim>\<open>str.split()\<close> and \<^verbatim>\<open>str.strip()\<close>\<close>

text \<open>\<^verbatim>\<open>str.isspace\<close> on the code points below 256.\<close>

definition py_isspace :: "char \<Rightarrow> bool" where
  "py_isspace c \<longleftrightarrow> (of_char c :: nat) \<in> set [9, 10, 11, 12, 13, 28, 29, 30, 31, 32, 133, 160]"

text \<open>\<^verbatim>\<open>str.split()\<close> with no argument: runs of whitespace separate, no empty fields.\<close>

function py_split :: "string \<Rightarrow> string list" where
  "py_split s =
     (let t = dropWhile py_isspace s in
      if t = [] then []
      else takeWhile (Not \<circ> py_isspace) t # py_split (dropWhile (Not \<circ> py_isspace) t))"
  by pat_completeness auto
termination
proof (relation "measure length")
  fix s t
  assume t: "t = dropWhile py_isspace s" and ne: "t \<noteq> []"
  obtain x xs where x: "t = x # xs" using ne by (cases t) auto
  have "\<not> py_isspace (hd t)" using hd_dropWhile [of py_isspace s] t ne by simp
  then have "dropWhile (Not \<circ> py_isspace) t = dropWhile (Not \<circ> py_isspace) xs" by (simp add: x)
  moreover have "length (dropWhile (Not \<circ> py_isspace) xs) \<le> length xs" by (rule length_dropWhile_le)
  moreover have "length t \<le> length s" using t by (simp add: length_dropWhile_le)
  ultimately show "(dropWhile (Not \<circ> py_isspace) t, s) \<in> measure length" by (simp add: x)
qed simp

declare py_split.simps [simp del]

definition py_strip :: "string \<Rightarrow> string" where
  "py_strip s = rev (dropWhile py_isspace (rev (dropWhile py_isspace s)))"

section \<open>Digits: evaluation facts and the print/read round trip\<close>

lemma of_char_digit_char [digit_simps]: "n < 10 \<Longrightarrow> (of_char (digit_char n) :: nat) = 48 + n"
  unfolding digit_char_def by (auto simp: less_Suc_eq numeral_eq_Suc)

lemma is_digit_digit_char [digit_simps]: "n < 10 \<Longrightarrow> is_digit (digit_char n)"
  by (simp add: is_digit_def of_char_digit_char)

lemma digit_val_digit_char [digit_simps]: "n < 10 \<Longrightarrow> digit_val (digit_char n) = n"
  by (simp add: digit_val_def of_char_digit_char)

lemma digit_char_inj [digit_simps]:
  "m < 10 \<Longrightarrow> n < 10 \<Longrightarrow> digit_char m = digit_char n \<longleftrightarrow> m = n"
  by (metis digit_val_digit_char)

lemma show_nat_small [simp]: "n < 10 \<Longrightarrow> show_nat n = [digit_char n]"
  by (simp add: show_nat.simps)

lemma show_nat_big: "10 \<le> n \<Longrightarrow> show_nat n = show_nat (n div 10) @ [digit_char (n mod 10)]"
  by (simp add: show_nat.simps [of n])

lemma show_nat_not_Nil [simp]: "show_nat n \<noteq> []"
  by (cases "n < 10") (simp_all add: show_nat_big)

lemma read_digits_snoc [simp]: "read_digits (cs @ [c]) = 10 * read_digits cs + digit_val c"
  by (simp add: read_digits_def)

lemma read_digits_Nil [simp]: "read_digits [] = 0"
  by (simp add: read_digits_def)

lemma read_digits_single [simp]: "read_digits [c] = digit_val c"
  by (simp add: read_digits_def)

lemma read_show_nat [simp]: "read_digits (show_nat n) = n"
proof (induction n rule: show_nat.induct)
  case (1 n)
  show ?case
  proof (cases "n < 10")
    case True
    then show ?thesis by (simp add: digit_simps)
  next
    case False
    with "1.IH" show ?thesis by (simp add: show_nat_big digit_simps)
  qed
qed

lemma show_nat_inj: "show_nat m = show_nat n \<longleftrightarrow> m = n"
  by (metis read_show_nat)

lemma show_nat_digits: "c \<in> set (show_nat n) \<Longrightarrow> is_digit c"
proof (induction n rule: show_nat.induct)
  case (1 n)
  then show ?case
    by (cases "n < 10") (auto simp: show_nat_big digit_simps)
qed

lemma show_nat_two_digits:
  "10 \<le> n \<Longrightarrow> n < 100 \<Longrightarrow> show_nat n = [digit_char (n div 10), digit_char (n mod 10)]"
  by (simp add: show_nat_big)

lemma show_nat_four_digits:
  assumes "1000 \<le> n" and "n < 10000"
  shows "show_nat n = [digit_char (n div 1000), digit_char (n div 100 mod 10),
                       digit_char (n div 10 mod 10), digit_char (n mod 10)]"
proof -
  have "show_nat (n div 100) = [digit_char (n div 1000), digit_char (n div 100 mod 10)]"
    using assms by (simp add: show_nat_two_digits div_mult2_eq [symmetric])
  moreover have "show_nat (n div 10) = show_nat (n div 10 div 10) @ [digit_char (n div 10 mod 10)]"
    using assms by (intro show_nat_big) simp
  ultimately show ?thesis using assms by (simp add: show_nat_big div_mult2_eq [symmetric])
qed

lemma pad2_digits:
  "n < 100 \<Longrightarrow> pad2 n = [digit_char (n div 10), digit_char (n mod 10)]"
  by (auto simp: pad2_def show_nat_two_digits digit_char_def)

lemma pad2_length: "n < 100 \<Longrightarrow> length (pad2 n) = 2"
  by (simp add: pad2_digits)

lemma pad4_four_digits: "1000 \<le> n \<Longrightarrow> n < 10000 \<Longrightarrow> pad4 n = show_nat n"
  by (simp add: pad4_def show_nat_four_digits)

lemma pad4_digits:
  assumes "n < 10000"
  shows "pad4 n = [digit_char (n div 1000), digit_char (n div 100 mod 10),
                   digit_char (n div 10 mod 10), digit_char (n mod 10)]"
proof -
  have z: "digit_char 0 = CHR ''0''" by (simp add: digit_char_def)
  consider "n < 10" | "10 \<le> n" "n < 100" | "100 \<le> n" "n < 1000" | "1000 \<le> n"
    by linarith
  then show ?thesis
  proof cases
    case 1
    then show ?thesis by (simp add: pad4_def z numeral_3_eq_3)
  next
    case 2
    then show ?thesis by (simp add: pad4_def z numeral_2_eq_2 show_nat_two_digits)
  next
    case 3
    then have "show_nat (n div 10) = [digit_char (n div 100), digit_char (n div 10 mod 10)]"
      by (simp add: show_nat_two_digits div_mult2_eq [symmetric])
    then show ?thesis using 3 by (simp add: pad4_def z show_nat_big)
  next
    case 4
    then show ?thesis using assms by (simp add: pad4_four_digits show_nat_four_digits)
  qed
qed

lemma digit_char_not_dot [digit_simps]: "n < 10 \<Longrightarrow> digit_char n \<noteq> CHR ''.''"
proof
  assume n: "n < 10" and eq: "digit_char n = CHR ''.''"
  have "(of_char (digit_char n) :: nat) = of_char CHR ''.''" using eq by simp
  then show False using of_char_digit_char [OF n] by simp
qed

section \<open>Words of \<^verbatim>\<open>str.split()\<close>\<close>

lemma py_split_eq: "py_split s =
     (let t = dropWhile py_isspace s in
      if t = [] then [] else takeWhile (Not \<circ> py_isspace) t # py_split (dropWhile (Not \<circ> py_isspace) t))"
  by (rule py_split.simps)

lemma py_split_Nil_iff: "py_split s = [] \<longleftrightarrow> (\<forall>c \<in> set s. py_isspace c)"
  by (subst py_split_eq) (simp add: Let_def dropWhile_eq_Nil_conv)

lemma py_split_spaces_append:
  "\<forall>c \<in> set a. py_isspace c \<Longrightarrow> py_split (a @ x) = py_split x"
  by (simp add: py_split_eq [of "a @ x"] py_split_eq [of x] dropWhile_append1 dropWhile_append2
      dropWhile_eq_Nil_conv Let_def split: if_splits)

lemma py_split_word:
  assumes "w \<noteq> []" and "\<forall>c \<in> set w. \<not> py_isspace c" and "rest = [] \<or> py_isspace (hd rest)"
  shows "py_split (w @ rest) = w # py_split rest"
proof -
  obtain c cs where w: "w = c # cs" using assms(1) by (cases w) auto
  have "dropWhile py_isspace (w @ rest) = w @ rest" using assms(2) w by simp
  moreover have "takeWhile (Not \<circ> py_isspace) (w @ rest) = w"
    using assms(2,3) by (cases rest) (auto simp: takeWhile_append2)
  moreover have "dropWhile (Not \<circ> py_isspace) (w @ rest) = rest"
    using assms(2,3) by (cases rest) (auto simp: dropWhile_append2)
  ultimately show ?thesis using w by (subst py_split_eq) (simp add: Let_def)
qed

lemma py_split_single:
  assumes "py_split s = [w]"
  shows "\<exists>a b. s = a @ w @ b \<and> (\<forall>c \<in> set a. py_isspace c) \<and> (\<forall>c \<in> set b. py_isspace c) \<and>
           w \<noteq> [] \<and> (\<forall>c \<in> set w. \<not> py_isspace c)"
proof -
  define t where "t = dropWhile py_isspace s"
  define a where "a = takeWhile py_isspace s"
  define b where "b = dropWhile (Not \<circ> py_isspace) t"
  have t: "t \<noteq> []" and w: "w = takeWhile (Not \<circ> py_isspace) t" and rest: "py_split b = []"
    using assms py_split_eq [of s] by (simp_all add: Let_def t_def b_def split: if_splits)
  have "s = a @ t" by (simp add: a_def t_def)
  moreover have "t = w @ b" by (simp add: w b_def)
  ultimately have s: "s = a @ w @ b" by simp
  have "w \<noteq> []" using t hd_dropWhile [of py_isspace s] w by (cases t) (auto simp: t_def)
  moreover have "\<forall>c \<in> set w. \<not> py_isspace c" using w by (auto dest: set_takeWhileD)
  moreover have "\<forall>c \<in> set a. py_isspace c" by (auto simp: a_def dest: set_takeWhileD)
  moreover have "\<forall>c \<in> set b. py_isspace c" using rest by (simp add: py_split_Nil_iff)
  ultimately show ?thesis using s by blast
qed

section \<open>Two-digit fields\<close>

lemma lit_eq_digit_char [digit_simps]:
  "n < 10 \<Longrightarrow> c = digit_char n \<longleftrightarrow> (of_char c :: nat) = 48 + n"
  "n < 10 \<Longrightarrow> digit_char n = c \<longleftrightarrow> (of_char c :: nat) = 48 + n"
  by (metis of_char_digit_char of_char_eq_iff)+

lemma pad2_split: "n < 100 \<Longrightarrow> pad2 n @ r = digit_char (n div 10) # digit_char (n mod 10) # r"
  by (simp add: pad2_digits)

lemma pad2_field:
  assumes "n < 100"
    and "\<And>q e. q < 10 \<Longrightarrow> e < 10 \<Longrightarrow> n = 10 * q + e \<Longrightarrow> P (digit_char q # digit_char e # r) (10 * q + e)"
  shows "P (pad2 n @ r) n"
proof -
  have "P (digit_char (n div 10) # digit_char (n mod 10) # r) (10 * (n div 10) + n mod 10)"
    using assms by (intro assms(2)) auto
  then show ?thesis using assms(1) by (simp add: pad2_split)
qed

lemma is_space_digit_char: "n < 10 \<Longrightarrow> \<not> py_isspace (digit_char n)"
  by (auto simp: py_isspace_def of_char_digit_char)

section \<open>Substrings and association lists\<close>

text \<open>The probe of the reminder gates is found in the concatenation of the firing records
  as soon as it is a prefix of one of them.\<close>

lemma prefix_sublist_concat [intro]:
  "prefix p r \<Longrightarrow> r \<in> set rs \<Longrightarrow> sublist p (concat rs)"
proof (induction rs)
  case Nil
  then show ?case by simp
next
  case (Cons x rs)
  then show ?case
    by (auto intro: sublist_append_rightI sublist_append_leftI sublist_order.order_trans
             dest: prefix_imp_sublist)
qed

lemma map_of_update_same [store_simps]: "map_of (AList.update k v al) k = Some v"
  by (simp add: update_conv')

lemma map_of_update_other [store_simps]: "k' \<noteq> k \<Longrightarrow> map_of (AList.update k v al) k' = map_of al k'"
  by (simp add: update_conv')

lemma update_same_key_twice [simp]: "AList.update k v (AList.update k w al) = AList.update k v al"
  by (induction al) auto

lemma update_map_of_id: "map_of al k = Some v \<Longrightarrow> AList.update k v al = al"
  by (rule update_triv)


lemma length_concat_same_length:
  "\<forall>x \<in> set xss. length x = c \<Longrightarrow> length (concat xss) = c * length xss"
  by (induction xss) auto

lemma nth_concat_same_length:
  "\<forall>x \<in> set xss. length x = c \<Longrightarrow> i < c * length xss \<Longrightarrow>
     concat xss ! i = xss ! (i div c) ! (i mod c)"
proof (induction xss arbitrary: i)
  case Nil
  then show ?case by simp
next
  case (Cons x xss)
  have lx: "length x = c" using Cons.prems(1) by simp
  show ?case
  proof (cases "i < c")
    case True
    then show ?thesis using lx by (simp add: nth_append)
  next
    case False
    then have c: "0 < c" using Cons.prems(2) by (cases c) auto
    have "i - c < c * length xss" using Cons.prems(2) False by simp
    then have "concat xss ! (i - c) = xss ! ((i - c) div c) ! ((i - c) mod c)"
      using Cons.IH Cons.prems(1) by simp
    then show ?thesis
      using False lx c by (simp add: nth_append le_div_geq le_mod_geq)
  qed
qed

end
