(* ===== verification/Datetime.thy ===== *)
theory Datetime
  imports Prelude
begin

text \<open>
  The part of Python's \<^verbatim>\<open>datetime\<close> that \<^verbatim>\<open>src/main.py\<close> relies on: naive datetimes
  (\<^verbatim>\<open>datetime.now()\<close>, the parsed deadlines), their difference as a \<^verbatim>\<open>timedelta\<close>
  counted in microseconds and normalised into \<^verbatim>\<open>days\<close> and \<^verbatim>\<open>seconds\<close> as CPython does,
  and the \<^verbatim>\<open>strftime\<close> probes of the reminder scanner. The proleptic Gregorian ordinal
  follows CPython's \<^verbatim>\<open>_ymd2ord\<close>.
\<close>

record datetime =
  year :: nat
  month :: nat
  day :: nat
  hour :: nat
  minute :: nat
  second :: nat
  microsecond :: nat

section \<open>Calendar arithmetic of the library\<close>

definition is_leap :: "nat \<Rightarrow> bool" where
  "is_leap y \<longleftrightarrow> y mod 4 = 0 \<and> (y mod 100 \<noteq> 0 \<or> y mod 400 = 0)"

definition days_in_month_lib :: "nat \<Rightarrow> nat \<Rightarrow> nat" where
  "days_in_month_lib y m =
     (if m = 2 \<and> is_leap y then 29 else [31, 28, 31, 30, 31, 30, 31, 31, 30, 31, 30, 31] ! (m - 1))"

definition days_before_month :: "nat \<Rightarrow> nat \<Rightarrow> nat" where
  "days_before_month y m =
     [0, 31, 59, 90, 120, 151, 181, 212, 243, 273, 304, 334] ! (m - 1)
     + (if 2 < m \<and> is_leap y then 1 else 0)"

definition days_before_year :: "nat \<Rightarrow> nat" where
  "days_before_year y = (let z = y - 1 in z * 365 + z div 4 - z div 100 + z div 400)"

definition ymd2ord :: "nat \<Rightarrow> nat \<Rightarrow> nat \<Rightarrow> nat" where
  "ymd2ord y m d = days_before_year y + days_before_month y m + d"

definition valid_datetime :: "datetime \<Rightarrow> bool" where
  "valid_datetime t \<longleftrightarrow>
     1 \<le> year t \<and> year t \<le> 9999 \<and> 1 \<le> month t \<and> month t \<le> 12 \<and>
     1 \<le> day t \<and> day t \<le> days_in_month_lib (year t) (month t) \<and>
     hour t < 24 \<and> minute t < 60 \<and> second t < 60 \<and> microsecond t < 1000000"

section \<open>Timedeltas\<close>

text \<open>A \<^verbatim>\<open>timedelta\<close> is its exact number of microseconds; \<^verbatim>\<open>deadline - now\<close>
  is the difference of the two instants.\<close>

type_synonym timedelta = int

definition dt_micros :: "datetime \<Rightarrow> int" where
  "dt_micros t =
     ((int (ymd2ord (year t) (month t) (day t)) * 86400 + int (hour t) * 3600
       + int (minute t) * 60 + int (second t)) * 1000000 + int (microsecond t))"

definition dt_sub :: "datetime \<Rightarrow> datetime \<Rightarrow> timedelta" where
  "dt_sub a b = dt_micros a - dt_micros b"

text \<open>CPython normalises a timedelta so that \<open>0 \<le> seconds < 86400\<close> and
  \<open>0 \<le> microseconds < 10\<^sup>6\<close>; \<^verbatim>\<open>days\<close> takes the sign. Floor division and the
  non-negative remainder of \<open>int\<close> give exactly that.\<close>

definition td_days :: "timedelta \<Rightarrow> int" where
  "td_days d = d div 86400000000"

definition td_seconds :: "timedelta \<Rightarrow> int" where
  "td_seconds d = (d mod 86400000000) div 1000000"

text \<open>\<^verbatim>\<open>total_seconds()\<close> is the correctly rounded quotient \<open>d / 10\<^sup>6\<close>; its
  comparisons with \<open>0\<close> and with \<open>\<plusminus>60\<close> in the code are exact, so they are
  comparisons of \<open>d\<close> with \<open>0\<close> and \<open>\<plusminus>6 \<cdot> 10\<^sup>7\<close>.\<close>

definition td_total_nonpos :: "timedelta \<Rightarrow> bool" where
  "td_total_nonpos d \<longleftrightarrow> d \<le> 0"

definition td_abs_total_lt_60 :: "timedelta \<Rightarrow> bool" where
  "td_abs_total_lt_60 d \<longleftrightarrow> \<bar>d\<bar> < 60000000"

section \<open>strftime probes\<close>

definition strftime_date :: "datetime \<Rightarrow> string" where
  "strftime_date t = pad2 (day t) @ ''.'' @ pad2 (month t) @ ''.'' @ pad4 (year t)"

definition strftime_hour :: "datetime \<Rightarrow> string" where
  "strftime_hour t = strftime_date t @ '' '' @ pad2 (hour t)"

definition strftime_minute :: "datetime \<Rightarrow> string" where
  "strftime_minute t = strftime_hour t @ '':'' @ pad2 (minute t)"

section \<open>Lemmas\<close>

lemma strftime_date_prefix_minute: "prefix (strftime_date t) (strftime_minute t)"
  by (simp add: strftime_minute_def strftime_hour_def)

lemma strftime_hour_prefix_minute: "prefix (strftime_hour t) (strftime_minute t)"
  by (simp add: strftime_minute_def)

lemma strftime_not_Nil [simp]:
  "strftime_date t \<noteq> []" "strftime_hour t \<noteq> []" "strftime_minute t \<noteq> []"
  by (simp_all add: strftime_date_def strftime_hour_def strftime_minute_def pad2_def)

lemma td_days_eq_iff: "td_days d = k \<longleftrightarrow> k * 86400000000 \<le> d \<and> d < (k + 1) * 86400000000"
  unfolding td_days_def by auto

lemma td_seconds_within_day:
  "0 \<le> d \<Longrightarrow> d < 86400000000 \<Longrightarrow> td_seconds d = d div 1000000"
  by (simp add: td_seconds_def)

lemma td_seconds_bounds: "0 \<le> td_seconds d \<and> td_seconds d < 86400"
  unfolding td_seconds_def by auto

lemma days_in_month_lib_le: "1 \<le> m \<Longrightarrow> m \<le> 12 \<Longrightarrow> days_in_month_lib y m \<le> 31"
proof -
  assume m: "1 \<le> m" "m \<le> 12"
  have "[31, 28, 31, 30, 31, 30, 31, 31, 30, 31, 30, 31::nat] ! (m - 1) \<in> set [31, 28, 31, 30, 31, 30, 31, 31, 30, 31, 30, 31]"
    using m by (intro nth_mem) simp
  then show ?thesis by (auto simp: days_in_month_lib_def)
qed

lemma valid_datetime_fields:
  "valid_datetime t \<Longrightarrow> day t < 100 \<and> month t < 100 \<and> year t < 10000 \<and> hour t < 100 \<and> minute t < 100"
  using days_in_month_lib_le [of "month t" "year t"] by (auto simp: valid_datetime_def)

text \<open>The stamp \<^verbatim>\<open>%d.%m.%Y %H:%M\<close> of a valid clock reading, character by character.\<close>

lemma strftime_minute_chars:
  assumes "valid_datetime t"
  shows "strftime_minute t =
    [digit_char (day t div 10), digit_char (day t mod 10), CHR ''.'',
     digit_char (month t div 10), digit_char (month t mod 10), CHR ''.'',
     digit_char (year t div 1000), digit_char (year t div 100 mod 10),
     digit_char (year t div 10 mod 10), digit_char (year t mod 10), CHR '' '',
     digit_char (hour t div 10), digit_char (hour t mod 10), CHR '':'',
     digit_char (minute t div 10), digit_char (minute t mod 10)]"
  using valid_datetime_fields [OF assms]
  by (simp add: strftime_minute_def strftime_hour_def strftime_date_def pad2_digits pad4_digits)

lemma strftime_lengths:
  "valid_datetime t \<Longrightarrow> length (strftime_date t) = 10 \<and> length (strftime_minute t) = 16"
  using valid_datetime_fields [of t]
  by (simp add: strftime_minute_def strftime_hour_def strftime_date_def pad2_digits pad4_digits)

lemma strftime_date_nth:
  "j < length (strftime_date t) \<Longrightarrow> strftime_minute t ! j = strftime_date t ! j"
  by (simp add: strftime_minute_def strftime_hour_def nth_append)

text \<open>The only dots of a stamp are the two of its date.\<close>

lemma strftime_minute_dot:
  assumes "valid_datetime t" and "j < 16"
  shows "strftime_minute t ! j = CHR ''.'' \<longleftrightarrow> j = 2 \<or> j = 5"
proof -
  have f: "day t < 100" "month t < 100" "year t < 10000" "hour t < 100" "minute t < 100"
    using valid_datetime_fields [OF assms(1)] by simp_all
  then have b: "day t div 10 < 10" "month t div 10 < 10" "year t div 1000 < 10"
    "hour t div 10 < 10" "minute t div 10 < 10"
    by simp_all
  have "j = 0 \<or> j = 1 \<or> j = 2 \<or> j = 3 \<or> j = 4 \<or> j = 5 \<or> j = 6 \<or> j = 7 \<or> j = 8 \<or> j = 9 \<or> j = 10 \<or> j = 11 \<or> j = 12 \<or> j = 13 \<or> j = 14 \<or> j = 15"
    using assms(2) by presburger
  then show ?thesis
    unfolding strftime_minute_chars [OF assms(1)]
    using b by (elim disjE) (simp_all add: digit_char_not_dot)
qed

lemmas datetime_eval = dt_sub_def dt_micros_def ymd2ord_def days_before_year_def days_before_month_def
  td_days_def td_seconds_def td_abs_total_lt_60_def td_total_nonpos_def
  strftime_date_def strftime_hour_def strftime_minute_def pad2_def pad4_def show_nat.simps digit_char_def

end
