(* ===== verification/Strptime.thy ===== *)
theory Strptime
  imports Datetime
begin

text \<open>
  How the reminder scanner reads a stored deadline (\<^verbatim>\<open>check_deadlines\<close>, lines 138--143
  of \<^verbatim>\<open>src/main.py\<close>): a deadline with one whitespace-separated field gets
  \<^verbatim>\<open>" 23:59"\<close> appended, and the result is parsed by
  \<^verbatim>\<open>datetime.strptime(s, "%d.%m.%Y %H:%M")\<close>. CPython's \<^verbatim>\<open>_strptime\<close> compiles the
  format into a regular expression, takes the first match at position 0 in backtracking
  order, rejects unconverted trailing data, and builds a date, which fails on day 0-of-year
  and on days past the end of the month. The regular expression is modelled as a
  list-of-successes matcher: each alternative of a field contributes its matches in the
  order the backtracking engine tries them, so the head of the combined list is the match
  the engine returns. Every \<^verbatim>\<open>ValueError\<close> is \<open>None\<close>.
\<close>

type_synonym 'a matcher = "string \<Rightarrow> ('a \<times> string) list"

definition chr_between :: "char \<Rightarrow> char \<Rightarrow> char \<Rightarrow> bool" where
  "chr_between lo hi c \<longleftrightarrow> (of_char lo :: nat) \<le> of_char c \<and> (of_char c :: nat) \<le> of_char hi"

text \<open>One regular-expression alternative of two characters (\<^verbatim>\<open>[1-2]\d\<close>), of one
  (\<^verbatim>\<open>\d\<close>), and the alternative \<^verbatim>\<open>" [1-9]"\<close> of \<^verbatim>\<open>%d\<close>, whose group \<^verbatim>\<open>int()\<close> reads
  after stripping the space.\<close>

fun re_two :: "(char \<Rightarrow> bool) \<Rightarrow> (char \<Rightarrow> bool) \<Rightarrow> nat matcher" where
  "re_two p q (a # b # r) = (if p a \<and> q b then [(10 * digit_val a + digit_val b, r)] else [])"
| "re_two p q _ = []"

fun re_one :: "(char \<Rightarrow> bool) \<Rightarrow> nat matcher" where
  "re_one p (a # r) = (if p a then [(digit_val a, r)] else [])"
| "re_one p [] = []"

fun re_space_digit :: "nat matcher" where
  "re_space_digit (a # b # r) =
     (if a = CHR '' '' \<and> chr_between (CHR ''1'') (CHR ''9'') b then [(digit_val b, r)] else [])"
| "re_space_digit _ = []"

text \<open>\<^verbatim>\<open>(?P<d>3[0-1]|[1-2]\d|0[1-9]|[1-9]| [1-9])\<close>\<close>

definition re_d :: "nat matcher" where
  "re_d s = re_two ((=) (CHR ''3'')) (chr_between (CHR ''0'') (CHR ''1'')) s
          @ re_two (chr_between (CHR ''1'') (CHR ''2'')) is_digit s
          @ re_two ((=) (CHR ''0'')) (chr_between (CHR ''1'') (CHR ''9'')) s
          @ re_one (chr_between (CHR ''1'') (CHR ''9'')) s
          @ re_space_digit s"

text \<open>\<^verbatim>\<open>(?P<m>1[0-2]|0[1-9]|[1-9])\<close>\<close>

definition re_m :: "nat matcher" where
  "re_m s = re_two ((=) (CHR ''1'')) (chr_between (CHR ''0'') (CHR ''2'')) s
          @ re_two ((=) (CHR ''0'')) (chr_between (CHR ''1'') (CHR ''9'')) s
          @ re_one (chr_between (CHR ''1'') (CHR ''9'')) s"

text \<open>\<^verbatim>\<open>(?P<Y>\d\d\d\d)\<close>\<close>

fun re_Y :: "nat matcher" where
  "re_Y (a # b # c # d # r) =
     (if is_digit a \<and> is_digit b \<and> is_digit c \<and> is_digit d
      then [(read_digits [a, b, c, d], r)] else [])"
| "re_Y _ = []"

text \<open>\<^verbatim>\<open>(?P<H>2[0-3]|[0-1]\d|\d)\<close>\<close>

definition re_H :: "nat matcher" where
  "re_H s = re_two ((=) (CHR ''2'')) (chr_between (CHR ''0'') (CHR ''3'')) s
          @ re_two (chr_between (CHR ''0'') (CHR ''1'')) is_digit s
          @ re_one is_digit s"

text \<open>\<^verbatim>\<open>(?P<M>[0-5]\d|\d)\<close>\<close>

definition re_M :: "nat matcher" where
  "re_M s = re_two (chr_between (CHR ''0'') (CHR ''5'')) is_digit s @ re_one is_digit s"

text \<open>A literal character of the format (\<^verbatim>\<open>\.\<close> and \<^verbatim>\<open>:\<close>).\<close>

fun re_lit :: "char \<Rightarrow> string \<Rightarrow> string list" where
  "re_lit c (a # r) = (if a = c then [r] else [])"
| "re_lit c [] = []"

text \<open>The blank of the format becomes the greedy \<^verbatim>\<open>\s+\<close>: the longest run first, then
  shorter ones on backtracking.\<close>

definition re_ws :: "string \<Rightarrow> string list" where
  "re_ws s = map (\<lambda>j. drop j s) (rev [1..<Suc (length (takeWhile py_isspace s))])"

definition strptime_matches :: "string \<Rightarrow> ((nat \<times> nat \<times> nat \<times> nat \<times> nat) \<times> string) list" where
  "strptime_matches s =
     [((y, mo, d, h, mi), r9).
        (d, r1) \<leftarrow> re_d s, r2 \<leftarrow> re_lit (CHR ''.'') r1, (mo, r3) \<leftarrow> re_m r2,
        r4 \<leftarrow> re_lit (CHR ''.'') r3, (y, r5) \<leftarrow> re_Y r4, r6 \<leftarrow> re_ws r5,
        (h, r7) \<leftarrow> re_H r6, r8 \<leftarrow> re_lit (CHR '':'') r7, (mi, r9) \<leftarrow> re_M r8]"

definition py_strptime :: "string \<Rightarrow> datetime option" where
  "py_strptime s =
     (case strptime_matches s of
        [] \<Rightarrow> None
      | ((y, mo, d, h, mi), rest) # _ \<Rightarrow>
          if rest \<noteq> [] then None
          else if 1 \<le> y \<and> d \<le> days_in_month_lib y mo
          then Some \<lparr>year = y, month = mo, day = d, hour = h, minute = mi, second = 0,
                     microsecond = 0\<rparr>
          else None)"

text \<open>Lines 138--143: the date-only form is read as 23:59 of that day.\<close>

definition parse_deadline :: "string \<Rightarrow> datetime option" where
  "parse_deadline s =
     (if length (py_split s) = 1 then py_strptime (s @ '' 23:59'') else py_strptime s)"

section \<open>Reading the fields the calendar writes\<close>

lemma chr_between_digit_char [digit_simps]:
  "n < 10 \<Longrightarrow> chr_between lo hi (digit_char n) \<longleftrightarrow> (of_char lo :: nat) \<le> 48 + n \<and> 48 + n \<le> (of_char hi :: nat)"
  by (simp add: chr_between_def of_char_digit_char)

lemma re_two_digits [digit_simps]:
  "a < 10 \<Longrightarrow> b < 10 \<Longrightarrow>
   re_two p q (digit_char a # digit_char b # r) = (if p (digit_char a) \<and> q (digit_char b) then [(10 * a + b, r)] else [])"
  by (simp add: digit_simps)

lemma re_one_digit [digit_simps]:
  "a < 10 \<Longrightarrow> re_one p (digit_char a # r) = (if p (digit_char a) then [(a, r)] else [])"
  by (simp add: digit_simps)

lemma re_space_digit_digit [digit_simps]: "a < 10 \<Longrightarrow> re_space_digit (digit_char a # r) = []"
  by (cases r) (simp_all add: digit_simps)

lemma re_d_pad2: "1 \<le> d \<Longrightarrow> d \<le> 31 \<Longrightarrow> \<exists>xs. re_d (pad2 d @ r) = (d, r) # xs"
proof (rule pad2_field [where P = "\<lambda>s v. \<exists>xs. re_d s = (v, r) # xs"])
  fix q e assume qe: "q < 10" "e < 10" "d = 10 * q + e" "1 \<le> d" "d \<le> 31"
  then consider "q = 0" "1 \<le> e" | "q = 1" | "q = 2" | "q = 3" "e \<le> 1" by linarith
  then show "\<exists>xs. re_d (digit_char q # digit_char e # r) = (10 * q + e, r) # xs"
    by cases (use qe in \<open>simp_all add: re_d_def digit_simps\<close>)
qed simp

lemma re_m_pad2: "1 \<le> m \<Longrightarrow> m \<le> 12 \<Longrightarrow> \<exists>xs. re_m (pad2 m @ r) = (m, r) # xs"
proof (rule pad2_field [where P = "\<lambda>s v. \<exists>xs. re_m s = (v, r) # xs"])
  fix q e assume qe: "q < 10" "e < 10" "m = 10 * q + e" "1 \<le> m" "m \<le> 12"
  then consider "q = 0" "1 \<le> e" | "q = 1" "e \<le> 2" by linarith
  then show "\<exists>xs. re_m (digit_char q # digit_char e # r) = (10 * q + e, r) # xs"
    by cases (use qe in \<open>simp_all add: re_m_def digit_simps\<close>)
qed simp

lemma re_H_pad2: "h < 24 \<Longrightarrow> \<exists>xs. re_H (pad2 h @ r) = (h, r) # xs"
proof (rule pad2_field [where P = "\<lambda>s v. \<exists>xs. re_H s = (v, r) # xs"])
  fix q e assume qe: "q < 10" "e < 10" "h = 10 * q + e" "h < 24"
  then consider "q \<le> 1" | "q = 2" "e \<le> 3" by linarith
  then show "\<exists>xs. re_H (digit_char q # digit_char e # r) = (10 * q + e, r) # xs"
    by cases (use qe in \<open>simp_all add: re_H_def digit_simps\<close>)
qed simp

lemma re_M_pad2: "mi < 60 \<Longrightarrow> \<exists>xs. re_M (pad2 mi @ r) = (mi, r) # xs"
proof (rule pad2_field [where P = "\<lambda>s v. \<exists>xs. re_M s = (v, r) # xs"])
  fix q e assume "q < 10" "e < 10" "mi = 10 * q + e" "mi < 60"
  then show "\<exists>xs. re_M (digit_char q # digit_char e # r) = (10 * q + e, r) # xs"
    by (simp add: re_M_def digit_simps)
qed simp

lemma re_Y_show_nat: "1000 \<le> y \<Longrightarrow> y < 10000 \<Longrightarrow> re_Y (show_nat y @ r) = [(y, r)]"
proof -
  assume y: "1000 \<le> y" "y < 10000"
  have "re_Y (show_nat y @ r) = [(read_digits (show_nat y), r)]"
    using y by (simp add: show_nat_four_digits digit_simps)
  then show ?thesis by simp
qed

lemma re_ws_one_blank: "\<not> py_isspace c \<Longrightarrow> re_ws (CHR '' '' # c # r) = [c # r]"
  by (simp add: re_ws_def py_isspace_def)

lemma py_strptime_format:
  assumes "1 \<le> m" "m \<le> 12" "1 \<le> d" "d \<le> days_in_month_lib y m" "1000 \<le> y" "y < 10000"
    "h < 24" "mi < 60"
  shows "py_strptime (pad2 d @ ''.'' @ pad2 m @ ''.'' @ show_nat y @ '' '' @ pad2 h @ '':'' @ pad2 mi) =
         Some \<lparr>year = y, month = m, day = d, hour = h, minute = mi, second = 0, microsecond = 0\<rparr>"
proof -
  have d31: "d \<le> 31" using assms(1,2,4) days_in_month_lib_le [of m y] by simp
  obtain xs1 where d: "re_d (pad2 d @ ''.'' @ pad2 m @ ''.'' @ show_nat y @ '' '' @ pad2 h @ '':'' @ pad2 mi) =
      (d, ''.'' @ pad2 m @ ''.'' @ show_nat y @ '' '' @ pad2 h @ '':'' @ pad2 mi) # xs1"
    using re_d_pad2 [OF assms(3) d31] by blast
  obtain xs2 where m: "re_m (pad2 m @ ''.'' @ show_nat y @ '' '' @ pad2 h @ '':'' @ pad2 mi) =
      (m, ''.'' @ show_nat y @ '' '' @ pad2 h @ '':'' @ pad2 mi) # xs2"
    using re_m_pad2 [OF assms(1,2)] by blast
  have y: "re_Y (show_nat y @ '' '' @ pad2 h @ '':'' @ pad2 mi) = [(y, '' '' @ pad2 h @ '':'' @ pad2 mi)]"
    using re_Y_show_nat [OF assms(5,6)] by blast
  have ws: "re_ws ('' '' @ pad2 h @ '':'' @ pad2 mi) = [pad2 h @ '':'' @ pad2 mi]"
    using assms(7) by (simp add: pad2_split re_ws_one_blank is_space_digit_char)
  obtain xs3 where h: "re_H (pad2 h @ '':'' @ pad2 mi) = (h, '':'' @ pad2 mi) # xs3"
    using re_H_pad2 [OF assms(7)] by blast
  obtain xs4 where mi: "re_M (pad2 mi) = (mi, []) # xs4"
    using re_M_pad2 [OF assms(8), of "[]"] by auto
  have "\<exists>zs. strptime_matches (pad2 d @ ''.'' @ pad2 m @ ''.'' @ show_nat y @ '' '' @ pad2 h @ '':'' @ pad2 mi) =
        ((y, m, d, h, mi), []) # zs"
    using d m y ws h mi by (simp add: strptime_matches_def)
  then show ?thesis using assms(4,5) by (auto simp: py_strptime_def)
qed

lemmas strptime_eval = parse_deadline_def py_strptime_def strptime_matches_def re_d_def re_m_def
  re_H_def re_M_def re_ws_def py_split.simps py_isspace_def chr_between_def is_digit_def digit_val_def
  days_in_month_lib_def is_leap_def read_digits_def


section \<open>Date-only deadlines\<close>

lemma py_split_date_only:
  assumes "length (py_split s) = 1"
  shows "py_split (s @ '' 23:59'') = [hd (py_split s), ''23:59'']"
proof -
  obtain w where w: "py_split s = [w]" using assms by (cases "py_split s") auto
  then obtain a b where s: "s = a @ w @ b" and a: "\<forall>c \<in> set a. py_isspace c"
      and b: "\<forall>c \<in> set b. py_isspace c" and wne: "w \<noteq> []" and ww: "\<forall>c \<in> set w. \<not> py_isspace c"
    using py_split_single by blast
  have sp: "py_isspace (CHR '' '')" by (simp add: py_isspace_def)
  have hd: "b @ '' 23:59'' = [] \<or> py_isspace (hd (b @ '' 23:59''))"
    using b sp by (cases b) auto
  have tail: "py_split (b @ '' 23:59'') = [''23:59'']"
  proof -
    have "py_split ((b @ '' '') @ ''23:59'') = py_split ''23:59''"
      using b sp by (intro py_split_spaces_append) auto
    also have "\<dots> = [''23:59'']"
      using py_split_word [of "''23:59''" "[]"] by (simp add: py_isspace_def py_split_Nil_iff)
    finally show ?thesis by simp
  qed
  have "py_split (s @ '' 23:59'') = py_split (w @ (b @ '' 23:59''))"
    using a by (simp add: s py_split_spaces_append)
  also have "\<dots> = w # py_split (b @ '' 23:59'')"
    using wne ww hd by (rule py_split_word)
  finally show ?thesis using tail w by simp
qed

text \<open>A stored deadline that is a single whitespace-separated field (what the
  "All Day" button stores) is read by the scanner exactly as that text followed by
  \<^verbatim>\<open>" 23:59"\<close>.\<close>

lemma parse_deadline_date_only:
  "length (py_split s) = 1 \<Longrightarrow> parse_deadline s = parse_deadline (s @ '' 23:59'')"
  by (simp add: parse_deadline_def py_split_date_only)

end
