(* ===== verification/TaskStore.thy ===== *)
theory TaskStore
  imports Strptime
begin

text \<open>
  The global dictionary \<^verbatim>\<open>tasks\<close> of \<^verbatim>\<open>src/main.py\<close> (line 25):
  \<^verbatim>\<open>{user_id: {task_id: {name, deadline, completed, reminded, created_at, reminded_at}}}\<close>.
  Python dicts keep insertion order and assignment to a present key keeps its place, which
  is \<^verbatim>\<open>AList.update\<close>; \<^verbatim>\<open>del\<close> is \<^verbatim>\<open>AList.delete\<close>. A task's \<^verbatim>\<open>reminded_at\<close> key is
  absent until the first reminder and read with default \<^verbatim>\<open>[]\<close>, so it is modelled as a
  list that starts empty. \<^verbatim>\<open>name\<close> and \<^verbatim>\<open>deadline\<close> come from \<^verbatim>\<open>state.get_data()\<close> and
  may be \<^verbatim>\<open>None\<close>.
\<close>

record task =
  name :: "string option"
  deadline :: "string option"
  completed :: bool
  reminded :: bool
  created_at :: string
  reminded_at :: "string list"

type_synonym user_tasks = "(string \<times> task) list"
type_synonym store = "(int \<times> user_tasks) list"

section \<open>Lookups\<close>

text \<open>\<^verbatim>\<open>tasks.get(user_id, {})\<close>: the user's dict, empty when the user has none.\<close>

definition user_tasks :: "store \<Rightarrow> int \<Rightarrow> user_tasks" where
  "user_tasks st u = (case map_of st u of None \<Rightarrow> [] | Some ts \<Rightarrow> ts)"

text \<open>The guard \<^verbatim>\<open>user_id in tasks and task_id in tasks[user_id]\<close> with the lookup.\<close>

definition find_task :: "store \<Rightarrow> int \<Rightarrow> string \<Rightarrow> task option" where
  "find_task st u t = (case map_of st u of None \<Rightarrow> None | Some ts \<Rightarrow> map_of ts t)"

section \<open>Operations\<close>

text \<open>The dict literal of a new task (lines 677--683 and 952--958).\<close>

definition new_task :: "string option \<Rightarrow> string option \<Rightarrow> string \<Rightarrow> task" where
  "new_task nm dl created =
     \<lparr>name = nm, deadline = dl, completed = False, reminded = False, created_at = created,
      reminded_at = []\<rparr>"

text \<open>Lines 672--683: make room for the user, number the task \<^verbatim>\<open>str(len + 1)\<close>, store it
  under that key (overwriting whatever the key held).\<close>

definition add_task ::
  "int \<Rightarrow> string option \<Rightarrow> string option \<Rightarrow> string \<Rightarrow> store \<Rightarrow> string \<times> store" where
  "add_task u nm dl created st =
     (let st1 = (if map_of st u = None then AList.update u [] st else st);
          ts = user_tasks st1 u;
          tid = show_nat (length ts + 1)
      in (tid, AList.update u (AList.update tid (new_task nm dl created) ts) st1))"

text \<open>\<^verbatim>\<open>tasks[user_id][task_id][...] = ...\<close> on a present task: the assignment that
  every editing handler performs after its membership guard.\<close>

definition modify_task :: "int \<Rightarrow> string \<Rightarrow> (task \<Rightarrow> task) \<Rightarrow> store \<Rightarrow> store option" where
  "modify_task u t f st =
     (case map_of st u of
        None \<Rightarrow> None
      | Some ts \<Rightarrow> (case map_of ts t of
                     None \<Rightarrow> None
                   | Some tk \<Rightarrow> Some (AList.update u (AList.update t (f tk) ts) st)))"

text \<open>Line 774: \<^verbatim>\<open>completed = not completed\<close>; no-op (\<open>None\<close>) when the guard fails.\<close>

definition toggle_task :: "int \<Rightarrow> string \<Rightarrow> store \<Rightarrow> store option" where
  "toggle_task u t st = modify_task u t (\<lambda>tk. tk\<lparr>completed := \<not> completed tk\<rparr>) st"

text \<open>Line 884: rename.\<close>

definition rename_task :: "int \<Rightarrow> string \<Rightarrow> string \<Rightarrow> store \<Rightarrow> store option" where
  "rename_task u t nm st = modify_task u t (\<lambda>tk. tk\<lparr>name := Some nm\<rparr>) st"

text \<open>Line 832: \<^verbatim>\<open>del tasks[user_id][task_id]\<close> under the membership guard.\<close>

definition delete_task :: "int \<Rightarrow> string \<Rightarrow> store \<Rightarrow> store option" where
  "delete_task u t st =
     (case find_task st u t of
        None \<Rightarrow> None
      | Some _ \<Rightarrow> Some (AList.update u (AList.delete t (user_tasks st u)) st))"

text \<open>Lines 663 and 940: the deadline edit has no guard; a missing user or task
  (or a \<^verbatim>\<open>None\<close> task id) raises \<^verbatim>\<open>KeyError\<close>.\<close>

definition set_deadline :: "int \<Rightarrow> string option \<Rightarrow> string option \<Rightarrow> store \<Rightarrow> py_error + store" where
  "set_deadline u t dl st =
     (case t of
        None \<Rightarrow> Inl KeyError
      | Some tid \<Rightarrow> (case modify_task u tid (\<lambda>tk. tk\<lparr>deadline := dl\<rparr>) st of
                      None \<Rightarrow> Inl KeyError
                    | Some st' \<Rightarrow> Inr st'))"

text \<open>Line 123: append a firing record to a present task.\<close>

definition record_reminder :: "int \<Rightarrow> string \<Rightarrow> string \<Rightarrow> store \<Rightarrow> store" where
  "record_reminder u t stamp st =
     (case modify_task u t (\<lambda>tk. tk\<lparr>reminded_at := reminded_at tk @ [stamp]\<rparr>) st of
        None \<Rightarrow> st
      | Some st' \<Rightarrow> st')"

section \<open>Well-formedness\<close>

text \<open>Keys of a Python dict are distinct, at both levels.\<close>

definition wf_store :: "store \<Rightarrow> bool" where
  "wf_store st \<longleftrightarrow> distinct (map fst st) \<and> (\<forall>p \<in> set st. distinct (map fst (snd p)))"

text \<open>The abstract view: for each user, a finite map from task ids to tasks.\<close>

definition abs_store :: "store \<Rightarrow> int \<Rightarrow> string \<rightharpoonup> task" where
  "abs_store st u = map_of (user_tasks st u)"

text \<open>The task ids of a user are \<^verbatim>\<open>"1"\<close> to \<^verbatim>\<open>str(n)\<close> for \<open>n\<close> tasks: what the
  numbering \<^verbatim>\<open>str(len + 1)\<close> assumes.\<close>

definition dense_ids :: "user_tasks \<Rightarrow> bool" where
  "dense_ids ts \<longleftrightarrow> set (map fst ts) = set (map show_nat [1..<Suc (length ts)])"

section \<open>Example inputs\<close>

definition task_a :: task where
  "task_a = new_task (Some ''A'') (Some ''01.01.2030 10:00'') ''01.12.2029 08:00''"

definition task_b :: task where
  "task_b = new_task (Some ''B'') (Some ''02.01.2030'') ''01.12.2029 08:05''"

definition two_tasks :: store where
  "two_tasks = [(7, [(''1'', task_a), (''2'', task_b)])]"

section \<open>Lemmas on lookups\<close>

lemma user_tasks_update [store_simps]:
  "user_tasks (AList.update u x st) u' = (if u' = u then x else user_tasks st u')"
  by (simp add: user_tasks_def update_conv')

lemma find_task_abs [store_simps]: "find_task st u t = abs_store st u t"
  by (simp add: find_task_def abs_store_def user_tasks_def split: option.split)

lemma abs_store_update [store_simps]:
  "abs_store (AList.update u x st) = (abs_store st)(u := map_of x)"
  by (simp add: abs_store_def fun_eq_iff store_simps)

lemma user_tasks_Some: "map_of st u = Some ts \<Longrightarrow> user_tasks st u = ts"
  by (simp add: user_tasks_def)

lemma modify_task_Some:
  "modify_task u t f st = Some st' \<longleftrightarrow>
     (\<exists>tk. abs_store st u t = Some tk \<and> map_of st u \<noteq> None \<and>
           st' = AList.update u (AList.update t (f tk) (user_tasks st u)) st)"
  by (auto simp: modify_task_def abs_store_def user_tasks_def split: option.splits)

lemma modify_task_None: "modify_task u t f st = None \<longleftrightarrow> abs_store st u t = None"
  by (auto simp: modify_task_def abs_store_def user_tasks_def split: option.splits)

lemma abs_modify_task:
  "modify_task u t f st = Some st' \<Longrightarrow> abs_store st u t = Some tk \<Longrightarrow>
     abs_store st' = (abs_store st)(u := (abs_store st u)(t \<mapsto> f tk))"
  by (auto simp: modify_task_Some abs_store_update update_conv' abs_store_def)

section \<open>Well-formedness is kept\<close>

lemma set_update_subset: "set (AList.update k v al) \<subseteq> insert (k, v) (set al)"
  by (induction al) auto

lemma wf_store_update:
  assumes "wf_store st" and "distinct (map fst x)"
  shows "wf_store (AList.update u x st)"
  using assms set_update_subset [of u x st]
  by (auto simp: wf_store_def distinct_update)

lemma wf_user_tasks: "wf_store st \<Longrightarrow> distinct (map fst (user_tasks st u))"
  by (auto simp: wf_store_def user_tasks_def split: option.split dest: map_of_SomeD)

lemma wf_modify_task: "wf_store st \<Longrightarrow> modify_task u t f st = Some st' \<Longrightarrow> wf_store st'"
  by (auto simp: modify_task_Some intro!: wf_store_update distinct_update wf_user_tasks)

lemma wf_add_task: "wf_store st \<Longrightarrow> add_task u nm dl c st = (tid, st') \<Longrightarrow> wf_store st'"
  unfolding add_task_def Let_def
  by (auto intro!: wf_store_update distinct_update wf_user_tasks simp: store_simps)

lemma wf_delete_task: "wf_store st \<Longrightarrow> delete_task u t st = Some st' \<Longrightarrow> wf_store st'"
  by (auto simp: delete_task_def split: option.splits
      intro!: wf_store_update distinct_delete wf_user_tasks)

lemma wf_set_deadline: "wf_store st \<Longrightarrow> set_deadline u t dl st = Inr st' \<Longrightarrow> wf_store st'"
  by (auto simp: set_deadline_def split: option.splits intro: wf_modify_task)

lemma wf_record_reminder: "wf_store st \<Longrightarrow> wf_store (record_reminder u t s st)"
  by (auto simp: record_reminder_def split: option.splits intro: wf_modify_task)

section \<open>Creating a task\<close>

lemma dense_ids_iff: "dense_ids ts \<longleftrightarrow> set (map fst ts) = show_nat ` {1..length ts}"
  by (simp only: dense_ids_def set_map set_upt atLeastLessThanSuc_atLeastAtMost)

lemma user_tasks_add_room: "user_tasks (if map_of st u = None then AList.update u [] st else st) u = user_tasks st u"
  by (simp add: store_simps user_tasks_def)

lemma add_task_eq:
  "add_task u nm dl c st =
     (show_nat (length (user_tasks st u) + 1),
      AList.update u (AList.update (show_nat (length (user_tasks st u) + 1)) (new_task nm dl c)
        (user_tasks st u)) (if map_of st u = None then AList.update u [] st else st))"
  by (simp add: add_task_def Let_def user_tasks_add_room)

lemma abs_store_add_room: "abs_store (if map_of st u = None then AList.update u [] st else st) = abs_store st"
  by (auto simp: abs_store_def user_tasks_def fun_eq_iff update_conv' split: option.split)

lemma dense_ids_fresh: "dense_ids ts \<Longrightarrow> map_of ts (show_nat (Suc (length ts))) = None"
  by (auto simp: dense_ids_iff map_of_eq_None_iff show_nat_inj)

lemma length_update_fresh: "map_of ts k = None \<Longrightarrow> length (AList.update k v ts) = Suc (length ts)"
  by (induction ts) auto

lemma dense_ids_update_fresh:
  assumes "dense_ids ts"
  shows "dense_ids (AList.update (show_nat (Suc (length ts))) v ts)"
proof -
  let ?k = "show_nat (Suc (length ts))"
  have fresh: "map_of ts ?k = None" using assms by (rule dense_ids_fresh)
  have "set (map fst (AList.update ?k v ts)) = insert ?k (set (map fst ts))"
    using dom_update [of ?k v ts] by simp
  also have "\<dots> = show_nat ` {1..Suc (length ts)}"
    using assms by (simp add: dense_ids_iff atLeastAtMostSuc_conv)
  finally show ?thesis by (simp add: dense_ids_iff length_update_fresh [OF fresh])
qed

section \<open>Toggling and deleting\<close>

lemma modify_task_involutive:
  assumes "modify_task u t f st = Some st'" and "\<And>tk. f (f tk) = tk"
  shows "modify_task u t f st' = Some st"
proof -
  obtain tk ts where ts: "map_of st u = Some ts" and tk: "map_of ts t = Some tk"
    and st': "st' = AList.update u (AList.update t (f tk) ts) st"
    using assms(1) by (auto simp: modify_task_def split: option.splits)
  have m1: "map_of st' u = Some (AList.update t (f tk) ts)"
    by (simp add: st' map_of_update_same)
  have m2: "map_of (AList.update t (f tk) ts) t = Some (f tk)"
    by (rule map_of_update_same)
  have "modify_task u t f st' =
          Some (AList.update u (AList.update t (f (f tk)) (AList.update t (f tk) ts)) st')"
    by (simp add: modify_task_def m1 m2)
  also have "\<dots> = Some (AList.update u (AList.update t tk ts) st)"
    by (simp add: st' assms(2))
  also have "\<dots> = Some st"
    using update_triv [OF tk] update_triv [OF ts] by simp
  finally show ?thesis .
qed

lemma toggle_twice_task: "tk\<lparr>completed := \<not> completed (tk\<lparr>completed := \<not> completed tk\<rparr>)\<rparr> = tk"
  by simp

lemma abs_delete_task:
  "delete_task u t st = Some st' \<Longrightarrow> abs_store st' = (abs_store st)(u := (abs_store st u)(t := None))"
  by (auto simp: delete_task_def abs_store_update delete_conv' abs_store_def split: option.splits)

lemma delete_task_None: "delete_task u t st = None \<longleftrightarrow> abs_store st u t = None"
  by (simp add: delete_task_def store_simps split: option.split)

lemma length_delete_present:
  "distinct (map fst ts) \<Longrightarrow> map_of ts k \<noteq> None \<Longrightarrow> length (AList.delete k ts) = length ts - 1"
proof (induction ts)
  case Nil
  then show ?case by simp
next
  case (Cons p ts)
  show ?case
  proof (cases "fst p = k")
    case True
    then have "k \<notin> fst ` set ts" using Cons.prems(1) by auto
    then show ?thesis using True by (simp add: delete_id)
  next
    case False
    then have "map_of ts k \<noteq> None" using Cons.prems(2) by (cases p) auto
    then have "ts \<noteq> []" by auto
    then show ?thesis using False Cons by simp
  qed
qed

lemma delete_task_user:
  "delete_task u t st = Some st' \<Longrightarrow>
     abs_store st u t \<noteq> None \<and> user_tasks st' u = AList.delete t (user_tasks st u)"
  by (auto simp: delete_task_def store_simps split: option.splits)

lemma abs_add_task:
  "add_task u nm dl c st = (tid, st') \<Longrightarrow>
     tid = show_nat (Suc (length (user_tasks st u))) \<and>
     abs_store st' = (abs_store st)(u := (abs_store st u)(tid \<mapsto> new_task nm dl c))"
  by (auto simp: add_task_eq abs_store_update abs_store_add_room update_conv' abs_store_def
      split del: if_split)

section \<open>Properties of the store\<close>

text \<open>C4. Each guarded store operation implements its map specification: toggling flips
  \<^verbatim>\<open>completed\<close> of exactly that task, renaming sets exactly its name, deleting removes
  exactly that task, and all three do nothing when the user or task is absent; the
  unguarded deadline edit raises \<^verbatim>\<open>KeyError\<close> there instead.\<close>

theorem store_ops_refine:
  "(case toggle_task u t st of
      None \<Rightarrow> abs_store st u t = None
    | Some st' \<Rightarrow> (\<exists>tk. abs_store st u t = Some tk \<and>
         abs_store st' = (abs_store st)(u := (abs_store st u)(t \<mapsto> tk\<lparr>completed := \<not> completed tk\<rparr>)))) \<and>
   (case rename_task u t nm st of
      None \<Rightarrow> abs_store st u t = None
    | Some st' \<Rightarrow> (\<exists>tk. abs_store st u t = Some tk \<and>
         abs_store st' = (abs_store st)(u := (abs_store st u)(t \<mapsto> tk\<lparr>name := Some nm\<rparr>)))) \<and>
   (case delete_task u t st of
      None \<Rightarrow> abs_store st u t = None
    | Some st' \<Rightarrow> abs_store st u t \<noteq> None \<and>
         abs_store st' = (abs_store st)(u := (abs_store st u)(t := None))) \<and>
   (case set_deadline u (Some t) dl st of
      Inl e \<Rightarrow> e = KeyError \<and> abs_store st u t = None
    | Inr st' \<Rightarrow> (\<exists>tk. abs_store st u t = Some tk \<and>
         abs_store st' = (abs_store st)(u := (abs_store st u)(t \<mapsto> tk\<lparr>deadline := dl\<rparr>))))"
proof -
  have m: "case modify_task u t f st of
             None \<Rightarrow> abs_store st u t = None
           | Some st' \<Rightarrow> (\<exists>tk. abs_store st u t = Some tk \<and>
                abs_store st' = (abs_store st)(u := (abs_store st u)(t \<mapsto> f tk)))" for f
  proof (cases "modify_task u t f st")
    case None
    moreover have "abs_store st u t = None" using None by (simp add: modify_task_None)
    ultimately show ?thesis by simp
  next
    case (Some st')
    then obtain tk where "abs_store st u t = Some tk" by (auto simp: modify_task_Some)
    with Some show ?thesis by (simp add: abs_modify_task)
  qed
  have d: "case delete_task u t st of
             None \<Rightarrow> abs_store st u t = None
           | Some st' \<Rightarrow> abs_store st u t \<noteq> None \<and>
                abs_store st' = (abs_store st)(u := (abs_store st u)(t := None))"
  proof (cases "delete_task u t st")
    case None
    moreover have "abs_store st u t = None" using None by (simp add: delete_task_None)
    ultimately show ?thesis by simp
  next
    case (Some st')
    then have "abs_store st u t \<noteq> None" by (auto simp: delete_task_None [symmetric])
    with Some show ?thesis by (simp add: abs_delete_task)
  qed
  have s: "case set_deadline u (Some t) dl st of
             Inl e \<Rightarrow> e = KeyError \<and> abs_store st u t = None
           | Inr st' \<Rightarrow> (\<exists>tk. abs_store st u t = Some tk \<and>
                abs_store st' = (abs_store st)(u := (abs_store st u)(t \<mapsto> tk\<lparr>deadline := dl\<rparr>)))"
    using m [of "\<lambda>tk. tk\<lparr>deadline := dl\<rparr>"]
    by (auto simp: set_deadline_def split: option.splits)
  show ?thesis
    using m [of "\<lambda>tk. tk\<lparr>completed := \<not> completed tk\<rparr>"] m [of "\<lambda>tk. tk\<lparr>name := Some nm\<rparr>"] d s
    by (simp add: toggle_task_def rename_task_def)
qed

text \<open>C5. Toggling completion twice gives back the store unchanged: marking a task done and
  re-opening it keeps its firing record and every other field.\<close>

theorem toggle_task_twice: "toggle_task u t st = Some st' \<Longrightarrow> toggle_task u t st' = Some st"
  unfolding toggle_task_def by (rule modify_task_involutive) simp_all

theorem toggle_task_twice_witness:
  "toggle_task 7 ''2'' two_tasks = Some [(7, [(''1'', task_a), (''2'', task_b\<lparr>completed := True\<rparr>)])] \<and>
   toggle_task 7 ''2'' [(7, [(''1'', task_a), (''2'', task_b\<lparr>completed := True\<rparr>)])] = Some two_tasks"
proof -
  have t: "toggle_task 7 ''2'' two_tasks = Some [(7, [(''1'', task_a), (''2'', task_b\<lparr>completed := True\<rparr>)])]"
    by (simp add: toggle_task_def modify_task_def two_tasks_def task_b_def new_task_def)
  show ?thesis using t toggle_task_twice [OF t] by simp
qed

text \<open>C6. While a user's task ids are exactly \<^verbatim>\<open>"1"\<close> to \<^verbatim>\<open>str(n)\<close> (no task deleted),
  creating a task picks an id that is not in use, adds exactly that task, and keeps the ids
  dense.\<close>

theorem add_task_fresh:
  assumes "dense_ids (user_tasks st u)" and "add_task u nm dl c st = (tid, st')"
  shows "abs_store st u tid = None \<and>
         abs_store st' = (abs_store st)(u := (abs_store st u)(tid \<mapsto> new_task nm dl c)) \<and>
         dense_ids (user_tasks st' u)"
proof -
  let ?ts = "user_tasks st u"
  have tid: "tid = show_nat (Suc (length ?ts))"
    using assms(2) by (simp add: add_task_eq split del: if_split)
  have st': "st' = AList.update u (AList.update tid (new_task nm dl c) ?ts)
                 (if map_of st u = None then AList.update u [] st else st)"
    using assms(2) by (simp add: add_task_eq tid split del: if_split)
  have fresh: "abs_store st u tid = None"
    using dense_ids_fresh [OF assms(1)] by (simp add: tid abs_store_def)
  have "abs_store st' = (abs_store st)(u := (abs_store st u)(tid \<mapsto> new_task nm dl c))"
    by (simp add: st' abs_store_update abs_store_add_room update_conv' abs_store_def)
  moreover have "dense_ids (user_tasks st' u)"
    using dense_ids_update_fresh [OF assms(1)] by (simp add: st' tid store_simps)
  ultimately show ?thesis using fresh by simp
qed

theorem add_task_fresh_witness:
  "dense_ids (user_tasks two_tasks 7) \<and>
   add_task 7 (Some ''C'') (Some ''03.01.2030'') ''c'' two_tasks =
     (''3'', [(7, [(''1'', task_a), (''2'', task_b), (''3'', new_task (Some ''C'') (Some ''03.01.2030'') ''c'')])]) \<and>
   abs_store two_tasks 7 ''3'' = None"
proof -
  have d: "dense_ids (user_tasks two_tasks 7)"
    by (simp add: dense_ids_def two_tasks_def user_tasks_def upt_rec digit_char_def insert_commute)
  have a: "add_task 7 (Some ''C'') (Some ''03.01.2030'') ''c'' two_tasks =
     (''3'', [(7, [(''1'', task_a), (''2'', task_b), (''3'', new_task (Some ''C'') (Some ''03.01.2030'') ''c'')])])"
    by (simp add: add_task_def two_tasks_def user_tasks_def show_nat.simps digit_char_def Let_def)
  show ?thesis using add_task_fresh [OF d a] d a by simp
qed

text \<open>C7. The numbering \<^verbatim>\<open>str(len + 1)\<close> reuses an id after a deletion: while a
  user's ids are \<^verbatim>\<open>"1"\<close> to \<^verbatim>\<open>str(n)\<close>, deleting any task other than
  \<^verbatim>\<open>str(n)\<close> and then creating a task numbers the new task \<^verbatim>\<open>str(n)\<close>, an id
  the user still has after the deletion, and the new task replaces that task.\<close>

theorem add_after_delete_overwrites:
  assumes "wf_store st" and "dense_ids (user_tasks st u)"
    and "delete_task u t st = Some st'" and "t \<noteq> show_nat (length (user_tasks st u))"
    and "add_task u nm dl c st' = (tid, st'')"
  shows "tid = show_nat (length (user_tasks st u)) \<and> abs_store st' u tid \<noteq> None \<and>
         abs_store st' u tid = abs_store st u tid \<and> abs_store st'' u tid = Some (new_task nm dl c)"
proof -
  let ?ts = "user_tasks st u"
  have present: "abs_store st u t \<noteq> None" and ts': "user_tasks st' u = AList.delete t ?ts"
    using delete_task_user [OF assms(3)] by simp_all
  have n: "length ?ts \<noteq> 0" using present by (auto simp: abs_store_def)
  have "length (user_tasks st' u) = length ?ts - 1"
    using length_delete_present [OF wf_user_tasks [OF assms(1)]] present ts' by (simp add: abs_store_def)
  then have tid: "tid = show_nat (length ?ts)" and new: "abs_store st'' u tid = Some (new_task nm dl c)"
    using abs_add_task [OF assms(5)] n by simp_all
  have "length ?ts \<in> {1..length ?ts}" using n by (simp add: Suc_le_eq)
  then have "tid \<in> fst ` set ?ts"
    using assms(2) by (simp add: dense_ids_iff tid)
  then have old: "abs_store st u tid \<noteq> None" by (simp add: abs_store_def map_of_eq_None_iff)
  have same: "abs_store st' u tid = abs_store st u tid"
    using assms(4) by (simp add: abs_store_def ts' delete_conv' tid)
  show ?thesis using tid new old same by simp
qed

theorem add_after_delete_overwrites_witness:
  "add_task 7 (Some ''C'') (Some ''03.01.2030'') ''c'' [(7, [(''2'', task_b)])] =
     (''2'', [(7, [(''2'', new_task (Some ''C'') (Some ''03.01.2030'') ''c'')])]) \<and>
   abs_store [(7, [(''2'', task_b)])] 7 ''2'' = Some task_b \<and>
   abs_store two_tasks 7 ''2'' = Some task_b"
proof -
  have wf: "wf_store two_tasks" by (simp add: wf_store_def two_tasks_def)
  have d: "dense_ids (user_tasks two_tasks 7)"
    by (simp add: dense_ids_def two_tasks_def user_tasks_def upt_rec digit_char_def insert_commute)
  have del: "delete_task 7 ''1'' two_tasks = Some [(7, [(''2'', task_b)])]"
    by (simp add: delete_task_def find_task_def two_tasks_def user_tasks_def)
  have nl: "''1'' \<noteq> show_nat (length (user_tasks two_tasks 7))"
    by (simp add: two_tasks_def user_tasks_def digit_char_def)
  have a: "add_task 7 (Some ''C'') (Some ''03.01.2030'') ''c'' [(7, [(''2'', task_b)])] =
     (''2'', [(7, [(''2'', new_task (Some ''C'') (Some ''03.01.2030'') ''c'')])])"
    by (simp add: add_task_def user_tasks_def show_nat.simps digit_char_def Let_def)
  have "abs_store [(7, [(''2'', task_b)])] 7 ''2'' = abs_store two_tasks 7 ''2''"
    using add_after_delete_overwrites [OF wf d del nl a] by blast
  moreover have "abs_store two_tasks 7 ''2'' = Some task_b"
    by (simp add: abs_store_def two_tasks_def user_tasks_def)
  ultimately show ?thesis using a by simp
qed

end
