(* ===== verification/Reminder.thy ===== *)
theory Reminder
  imports TaskStore
begin

text \<open>
  The reminder scanner \<^verbatim>\<open>check_deadlines\<close> and its helper \<^verbatim>\<open>send_reminder\<close>
  (\<^verbatim>\<open>src/main.py\<close>, lines 75--174). One pass reads the clock once (line 128), walks every
  user and a snapshot of that user's tasks, and for a task that is not completed parses its
  deadline, computes \<^verbatim>\<open>deadline - now\<close> and tests four gated windows in an
  \<^verbatim>\<open>if/elif\<close> chain; every branch calls \<^verbatim>\<open>send_reminder\<close>, which looks the task up
  again, chooses the message from the same timedelta by a different chain, sends it, and
  appends the clock reading taken after the send (line 123) to the firing record.

  The outside world of a pass is an explicit input: the clock at line 128, the clock at
  line 123 for each task, and whether \<^verbatim>\<open>bot.send_message\<close> returns for each send (user and task).
  Only \<^verbatim>\<open>ValueError\<close> is caught (line 169); any other exception leaves the loop and ends
  the background task for good, keeping the effects made so far. A pass therefore returns
  the exception it stopped on (if any), the store, and the messages sent in order.
\<close>

datatype reminder_kind = Due24h | Due1h | Due5min | DueNow

type_synonym notification = "int \<times> string \<times> reminder_kind"

record scan_env =
  now :: datetime
  sent_at :: "int \<Rightarrow> string \<Rightarrow> datetime"
  delivers :: "int \<Rightarrow> string \<Rightarrow> bool"

type_synonym outcome = "py_error option \<times> store \<times> notification list"

section \<open>send_reminder\<close>

text \<open>Lines 83--108: the message chosen from the timedelta; \<open>None\<close> is the bare
  \<^verbatim>\<open>return\<close> of line 108.\<close>

definition reminder_kind_of :: "timedelta \<Rightarrow> reminder_kind option" where
  "reminder_kind_of d =
     (if td_days d = 1 then Some Due24h
      else if td_seconds d \<le> 3600 \<and> td_seconds d > 300 then Some Due1h
      else if td_seconds d \<le> 300 \<and> td_seconds d > 0 then Some Due5min
      else if td_total_nonpos d then Some DueNow
      else None)"

definition send_reminder :: "scan_env \<Rightarrow> int \<Rightarrow> string \<Rightarrow> timedelta \<Rightarrow> store \<Rightarrow> outcome" where
  "send_reminder env u t d st =
     (case find_task st u t of
        None \<Rightarrow> (None, st, [])
      | Some tk \<Rightarrow>
          if completed tk then (None, st, [])
          else (case reminder_kind_of d of
                  None \<Rightarrow> (None, st, [])
                | Some k \<Rightarrow>
                    if delivers env u t
                    then (None, record_reminder u t (strftime_minute (sent_at env u t)) st, [(u, t, k)])
                    else (Some (SendFailed u), st, [])))"

section \<open>check_deadlines\<close>

text \<open>Lines 148--167: the gated windows, first match wins. The gate is Python's substring
  test against the concatenation of all firing records.\<close>

definition scan_branch :: "datetime \<Rightarrow> timedelta \<Rightarrow> string list \<Rightarrow> reminder_kind option" where
  "scan_branch n d ra =
     (let rs = concat ra in
      if td_days d = 1 \<and> \<not> sublist (strftime_date n) rs then Some Due24h
      else if td_seconds d \<le> 3600 \<and> td_seconds d > 3540 \<and> \<not> sublist (strftime_hour n) rs
        then Some Due1h
      else if td_seconds d \<le> 300 \<and> td_seconds d > 240 \<and> \<not> sublist (strftime_minute n) rs
        then Some Due5min
      else if td_abs_total_lt_60 d \<and> \<not> sublist (strftime_minute n) rs then Some DueNow
      else None)"

text \<open>Lines 133--171 for one entry \<open>(task_id, task)\<close> of the snapshot: a \<^verbatim>\<open>None\<close>
  deadline raises \<^verbatim>\<open>AttributeError\<close> at \<^verbatim>\<open>.split()\<close>, a deadline that does not parse is
  skipped.\<close>

definition check_task :: "scan_env \<Rightarrow> int \<Rightarrow> string \<times> task \<Rightarrow> store \<Rightarrow> outcome" where
  "check_task env u p st =
     (let t = fst p; tk = snd p in
      if completed tk then (None, st, [])
      else (case deadline tk of
              None \<Rightarrow> (Some AttributeError, st, [])
            | Some s \<Rightarrow>
                (case parse_deadline s of
                   None \<Rightarrow> (None, st, [])
                 | Some dl \<Rightarrow>
                     let d = dt_sub dl (now env) in
                     (case scan_branch (now env) d (reminded_at tk) of
                        None \<Rightarrow> (None, st, [])
                      | Some _ \<Rightarrow> send_reminder env u t d st))))"

text \<open>Line 131: the inner loop over \<^verbatim>\<open>list(tasks[user_id].items())\<close>.\<close>

fun scan_tasks :: "scan_env \<Rightarrow> int \<Rightarrow> user_tasks \<Rightarrow> store \<Rightarrow> outcome" where
  "scan_tasks env u [] st = (None, st, [])"
| "scan_tasks env u (p # ps) st =
     (case check_task env u p st of
        (Some e, st1, ns1) \<Rightarrow> (Some e, st1, ns1)
      | (None, st1, ns1) \<Rightarrow>
          (case scan_tasks env u ps st1 of (r, st2, ns2) \<Rightarrow> (r, st2, ns1 @ ns2)))"

text \<open>Line 130: the outer loop over the users; the snapshot of a user's tasks is taken when
  that user's turn comes.\<close>

fun scan_users :: "scan_env \<Rightarrow> int list \<Rightarrow> store \<Rightarrow> outcome" where
  "scan_users env [] st = (None, st, [])"
| "scan_users env (u # us) st =
     (case scan_tasks env u (user_tasks st u) st of
        (Some e, st1, ns1) \<Rightarrow> (Some e, st1, ns1)
      | (None, st1, ns1) \<Rightarrow>
          (case scan_users env us st1 of (r, st2, ns2) \<Rightarrow> (r, st2, ns1 @ ns2)))"

text \<open>Lines 128--171: one pass of the \<^verbatim>\<open>while True\<close> loop.\<close>

definition scan_pass :: "scan_env \<Rightarrow> store \<Rightarrow> outcome" where
  "scan_pass env st = scan_users env (map fst st) st"

text \<open>Lines 125--174: the unbounded loop, observed over the passes of a finite stretch of
  time; an exception ends it and no later pass runs.\<close>

fun scan_run :: "scan_env list \<Rightarrow> store \<Rightarrow> outcome" where
  "scan_run [] st = (None, st, [])"
| "scan_run (e # es) st =
     (case scan_pass e st of
        (Some err, st1, ns1) \<Rightarrow> (Some err, st1, ns1)
      | (None, st1, ns1) \<Rightarrow> (case scan_run es st1 of (r, st2, ns2) \<Rightarrow> (r, st2, ns1 @ ns2)))"

text \<open>What makes a task of the store at the start of a pass receive message \<open>k\<close>.\<close>

definition notifiable :: "scan_env \<Rightarrow> task \<Rightarrow> reminder_kind \<Rightarrow> bool" where
  "notifiable env tk k \<longleftrightarrow>
     \<not> completed tk \<and>
     (case deadline tk of
        None \<Rightarrow> False
      | Some s \<Rightarrow> (case parse_deadline s of
                    None \<Rightarrow> False
                  | Some dl \<Rightarrow>
                      scan_branch (now env) (dt_sub dl (now env)) (reminded_at tk) \<noteq> None \<and>
                      reminder_kind_of (dt_sub dl (now env)) = Some k))"

text \<open>Growth of the firing records: the only change a pass makes to the store.\<close>

definition task_grows :: "task \<Rightarrow> task \<Rightarrow> bool" where
  "task_grows tk tk' \<longleftrightarrow>
     tk'\<lparr>reminded_at := reminded_at tk\<rparr> = tk \<and> prefix (reminded_at tk) (reminded_at tk')"

definition store_grows :: "store \<Rightarrow> store \<Rightarrow> bool" where
  "store_grows st st' \<longleftrightarrow> (\<forall>u t. rel_option task_grows (abs_store st u t) (abs_store st' u t))"

section \<open>Example inputs\<close>

definition clock :: "nat \<Rightarrow> nat \<Rightarrow> nat \<Rightarrow> nat \<Rightarrow> nat \<Rightarrow> nat \<Rightarrow> nat \<Rightarrow> datetime" where
  "clock y mo d h mi s us =
     \<lparr>year = y, month = mo, day = d, hour = h, minute = mi, second = s, microsecond = us\<rparr>"

definition demo_store :: store where
  "demo_store = [(1, [(''1'', new_task (Some ''Report'') (Some ''01.01.2030 10:00'') ''01.12.2029 08:00'')])]"

definition demo_env :: "datetime \<Rightarrow> datetime \<Rightarrow> scan_env" where
  "demo_env n s = \<lparr>now = n, sent_at = (\<lambda>_ _. s), delivers = (\<lambda>_ _. True)\<rparr>"

definition two_users :: store where
  "two_users = [(1, [(''1'', new_task (Some ''Report'') (Some ''01.01.2030 10:00'') ''01.12.2029 08:00'')]),
                (2, [(''1'', new_task (Some ''Slides'') (Some ''01.01.2030 10:00'') ''01.12.2029 08:10'')])]"

definition failing_env :: scan_env where
  "failing_env = \<lparr>now = clock 2030 1 1 9 0 0 0, sent_at = (\<lambda>_ _. clock 2030 1 1 9 0 1 0),
                  delivers = (\<lambda>u _. u \<noteq> 1)\<rparr>"

text \<open>Consecutive clock readings at most \<open>g\<close> microseconds apart, in order.\<close>

fun gaps_le :: "int \<Rightarrow> int list \<Rightarrow> bool" where
  "gaps_le g (a # b # xs) = (a \<le> b \<and> b - a \<le> g \<and> gaps_le g (b # xs))"
| "gaps_le g _ = True"

section \<open>The gates\<close>

lemma scan_branch_blocked:
  assumes "strftime_minute n \<in> set ra"
  shows "scan_branch n d ra = None"
proof -
  have "sublist (strftime_date n) (concat ra)" "sublist (strftime_hour n) (concat ra)"
       "sublist (strftime_minute n) (concat ra)"
    using assms strftime_date_prefix_minute strftime_hour_prefix_minute by blast+
  then show ?thesis by (simp add: scan_branch_def)
qed

text \<open>Today's date occurs in a list of stamps only as the date of one of them: the two
  dots of \<^verbatim>\<open>%d.%m.%Y\<close> fit the dots of the 16-character stamps only at a stamp's
  start.\<close>

lemma date_in_stamps:
  assumes "valid_datetime n" and "\<forall>s \<in> set ss. valid_datetime s"
    and "sublist (strftime_date n) (concat (map strftime_minute ss))"
  shows "\<exists>s \<in> set ss. strftime_date s = strftime_date n"
proof -
  let ?ys = "concat (map strftime_minute ss)" and ?xs = "strftime_date n"
  obtain p q where eq: "?ys = p @ ?xs @ q" using assms(3) by (auto simp: sublist_def)
  let ?k = "length p"
  have len: "\<forall>x \<in> set (map strftime_minute ss). length x = 16"
    using assms(2) strftime_lengths by auto
  have lx: "length ?xs = 10" using strftime_lengths [OF assms(1)] by simp
  have "length ?ys = 16 * length ss" using length_concat_same_length [OF len] by simp
  then have bound: "?k + 10 \<le> 16 * length ss" using eq lx by simp
  have at: "?ys ! (?k + j) = ?xs ! j" if "j < 10" for j
    using that lx by (simp add: eq nth_append)
  have ys: "?ys ! i = strftime_minute (ss ! (i div 16)) ! (i mod 16)" if "i < 16 * length ss" for i
  proof -
    have "i div 16 < length ss" using that by simp
    then show ?thesis using nth_concat_same_length [OF len] that by simp
  qed
  have stamp: "?ys ! i = CHR ''.'' \<longleftrightarrow> i mod 16 = 2 \<or> i mod 16 = 5" if "i < 16 * length ss" for i
  proof -
    have "ss ! (i div 16) \<in> set ss" using that by simp
    then show ?thesis using ys [OF that] strftime_minute_dot assms(2) by simp
  qed
  have dots: "?xs ! 2 = CHR ''.''" "?xs ! 5 = CHR ''.''"
    using strftime_minute_dot [OF assms(1), of 2] strftime_minute_dot [OF assms(1), of 5]
      strftime_date_nth [of 2 n] strftime_date_nth [of 5 n] lx by simp_all
  have "(?k + 2) mod 16 = 2 \<or> (?k + 2) mod 16 = 5" "(?k + 5) mod 16 = 2 \<or> (?k + 5) mod 16 = 5"
    using stamp [of "?k + 2"] stamp [of "?k + 5"] at [of 2] at [of 5] dots bound by simp_all
  then have k: "?k mod 16 = 0" by presburger
  let ?s = "ss ! (?k div 16)"
  have s: "?s \<in> set ss" using bound k by simp
  have "strftime_date ?s = ?xs"
  proof (rule nth_equalityI)
    show "length (strftime_date ?s) = length ?xs" using strftime_lengths assms(2) s lx by simp
  next
    fix j assume "j < length (strftime_date ?s)"
    then have j: "j < 10" using strftime_lengths assms(2) s by simp
    obtain i where i: "?k = 16 * i" using k by (metis mod_eq_0_iff_dvd dvdE)
    have "(?k + j) div 16 = ?k div 16" "(?k + j) mod 16 = j" using j by (simp_all add: i)
    then have "?ys ! (?k + j) = strftime_minute ?s ! j" using ys [of "?k + j"] bound j by simp
    also have "\<dots> = strftime_date ?s ! j"
      using strftime_date_nth [of j ?s] strftime_lengths assms(2) s j by simp
    finally show "strftime_date ?s ! j = ?xs ! j" using at [OF j] by simp
  qed
  then show ?thesis using s by blast
qed

section \<open>Growth\<close>

lemma task_grows_refl [simp]: "task_grows tk tk"
  by (simp add: task_grows_def)

lemma task_grows_trans: "task_grows a b \<Longrightarrow> task_grows b c \<Longrightarrow> task_grows a c"
  unfolding task_grows_def by (metis prefix_order.order_trans task.update_convs(6) task.surjective)

lemma task_grows_completed: "task_grows tk tk' \<Longrightarrow> completed tk' = completed tk"
  unfolding task_grows_def by (metis task.select_convs(3) task.surjective task.update_convs(6))

lemma task_grows_set: "task_grows tk tk' \<Longrightarrow> set (reminded_at tk) \<subseteq> set (reminded_at tk')"
  by (auto simp: task_grows_def dest: set_mono_prefix)

lemma store_grows_refl [simp]: "store_grows st st"
  by (simp add: store_grows_def option.rel_refl)

lemma store_grows_trans: "store_grows a b \<Longrightarrow> store_grows b c \<Longrightarrow> store_grows a c"
  unfolding store_grows_def
  by (blast intro: option.rel_transp [THEN transpD] transpI task_grows_trans)

lemma store_grows_Some:
  "store_grows st st' \<Longrightarrow> abs_store st u t = Some tk \<Longrightarrow>
     \<exists>tk'. abs_store st' u t = Some tk' \<and> task_grows tk tk'"
  unfolding store_grows_def by (metis option_rel_Some1)

lemma record_reminder_abs:
  "abs_store st u t = Some tk \<Longrightarrow>
     abs_store (record_reminder u t s st) = (abs_store st)(u := (abs_store st u)(t \<mapsto> tk\<lparr>reminded_at := reminded_at tk @ [s]\<rparr>))"
  by (auto simp: record_reminder_def modify_task_None abs_modify_task split: option.split)

lemma record_reminder_missing: "abs_store st u t = None \<Longrightarrow> record_reminder u t s st = st"
  by (simp add: record_reminder_def modify_task_None [THEN iffD2])

lemma record_reminder_grows: "store_grows st (record_reminder u t s st)"
proof (cases "abs_store st u t")
  case None
  then show ?thesis by (simp add: record_reminder_missing)
next
  case (Some tk)
  then show ?thesis
    by (auto simp: store_grows_def record_reminder_abs option.rel_refl task_grows_def)
qed

lemma send_reminder_cases:
  "send_reminder env u t d st = (r, st', ns) \<Longrightarrow>
     (st' = st \<and> ns = []) \<or>
     (\<exists>tk k. r = None \<and> abs_store st u t = Some tk \<and> \<not> completed tk \<and>
        reminder_kind_of d = Some k \<and> ns = [(u, t, k)] \<and>
        st' = record_reminder u t (strftime_minute (sent_at env u t)) st)"
  by (auto simp: send_reminder_def store_simps split: option.splits if_splits)

lemma send_reminder_grows: "send_reminder env u t d st = (r, st', ns) \<Longrightarrow> store_grows st st'"
  by (auto dest!: send_reminder_cases intro: record_reminder_grows)

lemma check_task_cases:
  "check_task env u p st = (r, st', ns) \<Longrightarrow>
     (st' = st \<and> ns = []) \<or>
     (\<exists>s dl. \<not> completed (snd p) \<and> deadline (snd p) = Some s \<and> parse_deadline s = Some dl \<and>
        scan_branch (now env) (dt_sub dl (now env)) (reminded_at (snd p)) \<noteq> None \<and>
        send_reminder env u (fst p) (dt_sub dl (now env)) st = (r, st', ns))"
  by (auto simp: check_task_def Let_def split: option.splits if_splits)

lemma check_task_grows: "check_task env u p st = (r, st', ns) \<Longrightarrow> store_grows st st'"
  by (auto dest!: check_task_cases intro: send_reminder_grows)

lemma scan_tasks_grows: "scan_tasks env u ps st = (r, st', ns) \<Longrightarrow> store_grows st st'"
proof (induction ps arbitrary: st r st' ns)
  case Nil
  then show ?case by simp
next
  case (Cons p ps)
  then show ?case
    by (auto split: prod.splits option.splits dest: check_task_grows intro: store_grows_trans)
qed

lemma scan_users_grows: "scan_users env us st = (r, st', ns) \<Longrightarrow> store_grows st st'"
proof (induction us arbitrary: st r st' ns)
  case Nil
  then show ?case by simp
next
  case (Cons u us)
  then show ?case
    by (auto split: prod.splits option.splits dest: scan_tasks_grows intro: store_grows_trans)
qed

lemma scan_pass_grows: "scan_pass env st = (r, st', ns) \<Longrightarrow> store_grows st st'"
  by (simp add: scan_pass_def scan_users_grows)

section \<open>Frame: a check touches only its own task\<close>

lemma record_reminder_other:
  "(u', t') \<noteq> (u, t) \<Longrightarrow> abs_store (record_reminder u t s st) u' t' = abs_store st u' t'"
  by (cases "abs_store st u t") (auto simp: record_reminder_missing record_reminder_abs)

lemma record_reminder_user_other:
  "u' \<noteq> u \<Longrightarrow> user_tasks (record_reminder u t s st) u' = user_tasks st u'"
  by (auto simp: record_reminder_def modify_task_Some store_simps split: option.split)

lemma check_task_frame:
  assumes "check_task env u p st = (r, st', ns)" and "(u', t') \<noteq> (u, fst p)"
  shows "abs_store st' u' t' = abs_store st u' t'"
  using check_task_cases [OF assms(1)] assms(2)
  by (auto dest!: send_reminder_cases simp: record_reminder_other)

lemma check_task_user_frame:
  assumes "check_task env u p st = (r, st', ns)" and "u' \<noteq> u"
  shows "user_tasks st' u' = user_tasks st u'"
  using check_task_cases [OF assms(1)] assms(2)
  by (auto dest!: send_reminder_cases simp: record_reminder_user_other)

lemma scan_tasks_user_frame:
  "scan_tasks env u ps st = (r, st', ns) \<Longrightarrow> u' \<noteq> u \<Longrightarrow> user_tasks st' u' = user_tasks st u'"
proof (induction ps arbitrary: st r st' ns)
  case Nil
  then show ?case by simp
next
  case (Cons p ps)
  then show ?case
    by (auto split: prod.splits option.splits dest: check_task_user_frame)
qed

section \<open>What a pass sends\<close>

lemma check_task_notif:
  assumes "check_task env u p st = (r, st', ns)" and "abs_store st u (fst p) = Some (snd p)"
    and "x \<in> set ns"
  shows "\<exists>k. x = (u, fst p, k) \<and> notifiable env (snd p) k"
  using check_task_cases [OF assms(1)] assms(2,3)
  by (auto dest!: send_reminder_cases simp: notifiable_def)

lemma scan_tasks_notif:
  assumes "scan_tasks env u ps st = (r, st', ns)" and "distinct (map fst ps)"
    and "\<forall>p \<in> set ps. abs_store st u (fst p) = Some (snd p)" and "x \<in> set ns"
  shows "\<exists>t tk k. x = (u, t, k) \<and> (t, tk) \<in> set ps \<and> notifiable env tk k"
  using assms
proof (induction ps arbitrary: st r st' ns)
  case Nil
  then show ?case by simp
next
  case (Cons p ps)
  obtain r1 st1 ns1 where c: "check_task env u p st = (r1, st1, ns1)"
    by (cases "check_task env u p st") auto
  have first: "\<exists>t tk k. x = (u, t, k) \<and> (t, tk) \<in> set (p # ps) \<and> notifiable env tk k"
    if x1: "x \<in> set ns1"
  proof -
    obtain k where "x = (u, fst p, k)" "notifiable env (snd p) k"
      using check_task_notif [OF c _ x1] Cons.prems(3) by auto
    then show ?thesis by (cases p) auto
  qed
  show ?case
  proof (cases r1)
    case (Some e)
    then have "ns = ns1" using Cons.prems(1) c by simp
    then show ?thesis using first Cons.prems(4) by simp
  next
    case None
    obtain r2 st2 ns2 where c2: "scan_tasks env u ps st1 = (r2, st2, ns2)"
      by (cases "scan_tasks env u ps st1") auto
    have ns: "ns = ns1 @ ns2" using Cons.prems(1) c c2 None by simp
    have snap: "\<forall>q \<in> set ps. abs_store st1 u (fst q) = Some (snd q)"
    proof
      fix q assume q: "q \<in> set ps"
      have "fst q \<in> fst ` set ps" using q by simp
      moreover have "fst p \<notin> fst ` set ps" using Cons.prems(2) by simp
      ultimately have "fst q \<noteq> fst p" by metis
      then have "abs_store st1 u (fst q) = abs_store st u (fst q)"
        using check_task_frame [OF c] by simp
      with q Cons.prems(3) show "abs_store st1 u (fst q) = Some (snd q)" by simp
    qed
    show ?thesis
    proof (cases "x \<in> set ns1")
      case True
      then show ?thesis by (rule first)
    next
      case False
      then have "x \<in> set ns2" using Cons.prems(4) ns by simp
      then obtain t tk k where "x = (u, t, k)" "(t, tk) \<in> set ps" "notifiable env tk k"
        using Cons.IH [OF c2 _ snap] Cons.prems(2) by auto
      then show ?thesis by auto
    qed
  qed
qed

lemma wf_send_reminder: "send_reminder env u t d st = (r, st', ns) \<Longrightarrow> wf_store st \<Longrightarrow> wf_store st'"
  by (auto dest!: send_reminder_cases intro: wf_record_reminder)

lemma wf_check_task: "check_task env u p st = (r, st', ns) \<Longrightarrow> wf_store st \<Longrightarrow> wf_store st'"
  by (auto dest!: check_task_cases intro: wf_send_reminder)

lemma wf_scan_tasks: "scan_tasks env u ps st = (r, st', ns) \<Longrightarrow> wf_store st \<Longrightarrow> wf_store st'"
proof (induction ps arbitrary: st r st' ns)
  case Nil
  then show ?case by simp
next
  case (Cons p ps)
  then show ?case by (auto split: prod.splits option.splits dest: wf_check_task)
qed

lemma wf_snapshot:
  "wf_store st \<Longrightarrow> p \<in> set (user_tasks st u) \<Longrightarrow> abs_store st u (fst p) = Some (snd p)"
  by (cases p) (auto simp: abs_store_def intro!: map_of_is_SomeI wf_user_tasks)

lemma scan_users_notif:
  assumes "scan_users env us st = (r, st', ns)" and "distinct us" and "wf_store st"
    and "x \<in> set ns"
  shows "\<exists>u t tk k. x = (u, t, k) \<and> u \<in> set us \<and> abs_store st u t = Some tk \<and> notifiable env tk k"
  using assms
proof (induction us arbitrary: st r st' ns)
  case Nil
  then show ?case by simp
next
  case (Cons u us)
  obtain r1 st1 ns1 where c: "scan_tasks env u (user_tasks st u) st = (r1, st1, ns1)"
    by (cases "scan_tasks env u (user_tasks st u) st") auto
  have first: "\<exists>t tk k. y = (u, t, k) \<and> abs_store st u t = Some tk \<and> notifiable env tk k"
    if "y \<in> set ns1" for y
    using scan_tasks_notif [OF c wf_user_tasks [OF Cons.prems(3)] _ that]
      wf_snapshot [OF Cons.prems(3)] by fastforce
  show ?case
  proof (cases r1)
    case (Some e)
    with Cons.prems(1,4) c first show ?thesis by fastforce
  next
    case None
    obtain r2 st2 ns2 where c2: "scan_users env us st1 = (r2, st2, ns2)"
      by (cases "scan_users env us st1") auto
    have ns: "ns = ns1 @ ns2" using Cons.prems(1) c c2 None by simp
    have wf1: "wf_store st1" using wf_scan_tasks [OF c Cons.prems(3)] .
    have same: "abs_store st1 u' = abs_store st u'" if "u' \<in> set us" for u'
    proof -
      have "u' \<noteq> u" using Cons.prems(2) that by auto
      then show ?thesis using scan_tasks_user_frame [OF c] by (simp add: abs_store_def)
    qed
    show ?thesis
    proof (cases "x \<in> set ns1")
      case True
      then show ?thesis using first by fastforce
    next
      case False
      then have "x \<in> set ns2" using Cons.prems(4) ns by simp
      then obtain u' t tk k where "x = (u', t, k)" "u' \<in> set us" "abs_store st1 u' t = Some tk"
          "notifiable env tk k"
        using Cons.IH [OF c2 _ wf1] Cons.prems(2) by auto
      then show ?thesis using same by fastforce
    qed
  qed
qed

lemma scan_pass_notif:
  assumes "scan_pass env st = (r, st', ns)" and "wf_store st" and "x \<in> set ns"
  shows "\<exists>u t tk k. x = (u, t, k) \<and> abs_store st u t = Some tk \<and> notifiable env tk k"
  using scan_users_notif [of env "map fst st" st r st' ns x] assms
  by (auto simp: scan_pass_def wf_store_def)

section \<open>Firing records of a pass\<close>

lemma store_grows_has_record:
  "store_grows st st' \<Longrightarrow> abs_store st u t = Some tk \<Longrightarrow> s \<in> set (reminded_at tk) \<Longrightarrow>
     \<exists>tk'. abs_store st' u t = Some tk' \<and> s \<in> set (reminded_at tk')"
  by (blast dest: store_grows_Some task_grows_set)

lemma send_reminder_stamp:
  assumes "send_reminder env u t d st = (r, st', ns)" and "x \<in> set ns"
  shows "\<exists>k tk'. x = (u, t, k) \<and> abs_store st' u t = Some tk' \<and>
           strftime_minute (sent_at env u t) \<in> set (reminded_at tk')"
  using send_reminder_cases [OF assms(1)] assms(2) by (auto simp: record_reminder_abs)

lemma check_task_stamp:
  assumes "check_task env u p st = (r, st', ns)" and "(u', t', k) \<in> set ns"
  shows "\<exists>tk'. abs_store st' u' t' = Some tk' \<and> strftime_minute (sent_at env u' t') \<in> set (reminded_at tk')"
  using check_task_cases [OF assms(1)] assms(2) by (auto dest: send_reminder_stamp)

lemma scan_tasks_stamp:
  "scan_tasks env u ps st = (r, st', ns) \<Longrightarrow> (u', t', k) \<in> set ns \<Longrightarrow>
     \<exists>tk'. abs_store st' u' t' = Some tk' \<and> strftime_minute (sent_at env u' t') \<in> set (reminded_at tk')"
proof (induction ps arbitrary: st r st' ns)
  case Nil
  then show ?case by simp
next
  case (Cons p ps)
  obtain r1 st1 ns1 where c: "check_task env u p st = (r1, st1, ns1)"
    by (cases "check_task env u p st") auto
  show ?case
  proof (cases r1)
    case (Some e)
    then show ?thesis using Cons.prems c by (auto dest: check_task_stamp)
  next
    case None
    obtain r2 st2 ns2 where c2: "scan_tasks env u ps st1 = (r2, st2, ns2)"
      by (cases "scan_tasks env u ps st1") auto
    have eq: "ns = ns1 @ ns2" "st' = st2" using Cons.prems(1) c c2 None by simp_all
    show ?thesis
    proof (cases "(u', t', k) \<in> set ns1")
      case True
      then show ?thesis
        using check_task_stamp [OF c] scan_tasks_grows [OF c2] eq store_grows_has_record by blast
    next
      case False
      then show ?thesis using Cons.IH [OF c2] Cons.prems(2) eq by simp
    qed
  qed
qed

lemma scan_users_stamp:
  "scan_users env us st = (r, st', ns) \<Longrightarrow> (u', t', k) \<in> set ns \<Longrightarrow>
     \<exists>tk'. abs_store st' u' t' = Some tk' \<and> strftime_minute (sent_at env u' t') \<in> set (reminded_at tk')"
proof (induction us arbitrary: st r st' ns)
  case Nil
  then show ?case by simp
next
  case (Cons u us)
  obtain r1 st1 ns1 where c: "scan_tasks env u (user_tasks st u) st = (r1, st1, ns1)"
    by (cases "scan_tasks env u (user_tasks st u) st") auto
  show ?case
  proof (cases r1)
    case (Some e)
    then show ?thesis using Cons.prems c by (auto dest: scan_tasks_stamp)
  next
    case None
    obtain r2 st2 ns2 where c2: "scan_users env us st1 = (r2, st2, ns2)"
      by (cases "scan_users env us st1") auto
    have eq: "ns = ns1 @ ns2" "st' = st2" using Cons.prems(1) c c2 None by simp_all
    show ?thesis
    proof (cases "(u', t', k) \<in> set ns1")
      case True
      then show ?thesis
        using scan_tasks_stamp [OF c] scan_users_grows [OF c2] eq store_grows_has_record by blast
    next
      case False
      then show ?thesis using Cons.IH [OF c2] Cons.prems(2) eq by simp
    qed
  qed
qed

lemma wf_scan_users: "scan_users env us st = (r, st', ns) \<Longrightarrow> wf_store st \<Longrightarrow> wf_store st'"
proof (induction us arbitrary: st r st' ns)
  case Nil
  then show ?case by simp
next
  case (Cons u us)
  then show ?case by (auto split: prod.splits option.splits dest: wf_scan_tasks)
qed

lemma wf_scan_pass: "scan_pass env st = (r, st', ns) \<Longrightarrow> wf_store st \<Longrightarrow> wf_store st'"
  by (simp add: scan_pass_def wf_scan_users)

lemma td_split:
  assumes "d = int k * 86400000000 + r" "0 \<le> r" "r < 86400000000"
  shows "td_days d = int k" "td_seconds d = r div 1000000"
  using assms by (simp_all add: td_days_def td_seconds_def)

lemma check_task_sends:
  assumes "find_task st u t = Some tk" "\<not> completed tk" "deadline tk = Some s" "parse_deadline s = Some dl"
    "scan_branch (now env) (dt_sub dl (now env)) (reminded_at tk) = Some k'"
    "reminder_kind_of (dt_sub dl (now env)) = Some k" "delivers env u t"
  shows "check_task env u (t, tk) st =
           (None, record_reminder u t (strftime_minute (sent_at env u t)) st, [(u, t, k)])"
  using assms by (simp add: check_task_def send_reminder_def)

lemma last_minute_td:
  assumes "0 < d" "d < 60000000"
  shows "td_days d = 0" "td_seconds d = d div 1000000" "d div 1000000 < 60"
  using assms by (simp_all add: td_days_def td_seconds_def)

lemma task_grows_deadline: "task_grows tk tk' \<Longrightarrow> deadline tk' = deadline tk"
  unfolding task_grows_def by (metis task.select_convs(2) task.surjective task.update_convs(6))

lemma check_task_none_deadline:
  "\<not> completed tk \<Longrightarrow> deadline tk = None \<Longrightarrow> check_task env u (t, tk) st = (Some AttributeError, st, [])"
  by (simp add: check_task_def)

lemma scan_tasks_raises:
  "(t, tk) \<in> set ps \<Longrightarrow> \<not> completed tk \<Longrightarrow> deadline tk = None \<Longrightarrow> fst (scan_tasks env u ps st) \<noteq> None"
proof (induction ps arbitrary: st)
  case Nil
  then show ?case by simp
next
  case (Cons p ps)
  obtain r1 st1 ns1 where c: "check_task env u p st = (r1, st1, ns1)" by (cases "check_task env u p st") auto
  show ?case
  proof (cases r1)
    case None
    then have "p \<noteq> (t, tk)" using c check_task_none_deadline [OF Cons.prems(2,3)] by auto
    then have "fst (scan_tasks env u ps st1) \<noteq> None" using Cons by simp
    then show ?thesis using c None by (auto split: prod.splits)
  next
    case (Some e)
    then show ?thesis using c by simp
  qed
qed

lemma scan_users_raises:
  "u \<in> set us \<Longrightarrow> abs_store st u t = Some tk \<Longrightarrow> \<not> completed tk \<Longrightarrow> deadline tk = None \<Longrightarrow>
   fst (scan_users env us st) \<noteq> None"
proof (induction us arbitrary: st tk)
  case Nil
  then show ?case by simp
next
  case (Cons v us)
  obtain r1 st1 ns1 where c: "scan_tasks env v (user_tasks st v) st = (r1, st1, ns1)"
    by (cases "scan_tasks env v (user_tasks st v) st") auto
  show ?case
  proof (cases r1)
    case None
    have "v \<noteq> u"
    proof
      assume "v = u"
      then have "(t, tk) \<in> set (user_tasks st v)" using Cons.prems(2) by (simp add: abs_store_def map_of_SomeD)
      then have "fst (scan_tasks env v (user_tasks st v) st) \<noteq> None"
        using Cons.prems(3,4) by (rule scan_tasks_raises)
      then show False using c None by simp
    qed
    then have u: "u \<in> set us" using Cons.prems(1) by simp
    obtain tk' where tk': "abs_store st1 u t = Some tk'" "task_grows tk tk'"
      using store_grows_Some [OF scan_tasks_grows [OF c] Cons.prems(2)] by blast
    have "\<not> completed tk'" "deadline tk' = None"
      using tk'(2) Cons.prems(3,4) task_grows_completed task_grows_deadline by simp_all
    then have "fst (scan_users env us st1) \<noteq> None" using Cons.IH [OF u tk'(1)] by blast
    then show ?thesis using c None by (auto split: prod.splits)
  next
    case (Some e)
    then show ?thesis using c by simp
  qed
qed

lemma check_task_send_fails:
  assumes "notifiable env tk k" and "\<not> delivers env u t"
    and "abs_store st u t = Some tk'" and "\<not> completed tk'"
  shows "check_task env u (t, tk) st = (Some (SendFailed u), st, [])"
  using assms by (auto simp: check_task_def send_reminder_def notifiable_def store_simps Let_def
      split: option.splits)

lemma scan_tasks_send_fails:
  "(t, tk) \<in> set ps \<Longrightarrow> notifiable env tk k \<Longrightarrow> \<not> delivers env u t \<Longrightarrow>
   abs_store st u t = Some tk' \<Longrightarrow> \<not> completed tk' \<Longrightarrow> fst (scan_tasks env u ps st) \<noteq> None"
proof (induction ps arbitrary: st tk')
  case Nil
  then show ?case by simp
next
  case (Cons p ps)
  obtain r1 st1 ns1 where c: "check_task env u p st = (r1, st1, ns1)" by (cases "check_task env u p st") auto
  show ?case
  proof (cases r1)
    case None
    then have "p \<noteq> (t, tk)" using c check_task_send_fails [OF Cons.prems(2-5)] by auto
    then have mem: "(t, tk) \<in> set ps" using Cons.prems(1) by simp
    obtain tk'' where "abs_store st1 u t = Some tk''" "task_grows tk' tk''"
      using store_grows_Some [OF check_task_grows [OF c] Cons.prems(4)] by blast
    moreover have "\<not> completed tk''" using calculation(2) Cons.prems(5) task_grows_completed by simp
    ultimately have "fst (scan_tasks env u ps st1) \<noteq> None"
      using Cons.IH [OF mem Cons.prems(2,3)] by blast
    then show ?thesis using c None by (auto split: prod.splits)
  next
    case (Some e)
    then show ?thesis using c by simp
  qed
qed

lemma scan_users_send_fails:
  "u \<in> set us \<Longrightarrow> abs_store st u t = Some tk \<Longrightarrow> notifiable env tk k \<Longrightarrow> \<not> delivers env u t \<Longrightarrow>
   fst (scan_users env us st) \<noteq> None"
proof (induction us arbitrary: st)
  case Nil
  then show ?case by simp
next
  case (Cons v us)
  obtain r1 st1 ns1 where c: "scan_tasks env v (user_tasks st v) st = (r1, st1, ns1)"
    by (cases "scan_tasks env v (user_tasks st v) st") auto
  have open_tk: "\<not> completed tk" using Cons.prems(3) by (simp add: notifiable_def)
  show ?case
  proof (cases r1)
    case None
    have "v \<noteq> u"
    proof
      assume "v = u"
      then have "(t, tk) \<in> set (user_tasks st v)" using Cons.prems(2) by (simp add: abs_store_def map_of_SomeD)
      then have "fst (scan_tasks env v (user_tasks st v) st) \<noteq> None"
        using scan_tasks_send_fails Cons.prems(2-4) open_tk \<open>v = u\<close> by blast
      then show False using c None by simp
    qed
    then have u: "u \<in> set us" using Cons.prems(1) by simp
    have "abs_store st1 u = abs_store st u"
      using scan_tasks_user_frame [OF c] \<open>v \<noteq> u\<close> by (simp add: abs_store_def)
    then have "fst (scan_users env us st1) \<noteq> None"
      using Cons.IH [OF u _ Cons.prems(3,4)] Cons.prems(2) by simp
    then show ?thesis using c None by (auto split: prod.splits)
  next
    case (Some e)
    then show ?thesis using c by simp
  qed
qed

lemma date_prefix_stamp:
  "strftime_minute s \<in> set ra \<Longrightarrow> strftime_date s = strftime_date n \<Longrightarrow>
     sublist (strftime_date n) (concat ra)"
proof -
  assume m: "strftime_minute s \<in> set ra" and d: "strftime_date s = strftime_date n"
  obtain a b where ra: "ra = a @ strftime_minute s # b" using split_list [OF m] by blast
  obtain r where r: "strftime_minute s = strftime_date s @ r"
    using strftime_date_prefix_minute [of s] by (auto simp: prefix_def)
  have "concat ra = concat a @ strftime_date n @ (r @ concat b)" using ra r d by simp
  then show ?thesis by (auto simp: sublist_def)
qed

lemma abs_store_Some_user: "abs_store st u t = Some tk \<Longrightarrow> u \<in> set (map fst st)"
  by (auto simp: abs_store_def user_tasks_def split: option.splits dest: map_of_SomeD intro: rev_image_eqI)

lemmas scan_eval = scan_pass_def check_task_def send_reminder_def scan_branch_def reminder_kind_of_def
  find_task_def record_reminder_def modify_task_def user_tasks_def new_task_def
  clock_def demo_store_def demo_env_def datetime_eval strptime_eval Let_def

section \<open>Properties of the scanner\<close>

text \<open>C1. A task that is marked completed when a pass starts gets no reminder from that
  pass: the scanner skips it and \<^verbatim>\<open>send_reminder\<close> checks the flag again.\<close>

theorem scan_pass_skips_completed:
  assumes "wf_store st" and "scan_pass env st = (r, st', ns)" and "(u, t, k) \<in> set ns"
    and "abs_store st u t = Some tk"
  shows "\<not> completed tk"
  using scan_pass_notif [OF assms(2,1,3)] assms(4) by (auto simp: notifiable_def)

theorem scan_pass_skips_completed_witness:
  "wf_store demo_store \<and>
   (1, ''1'', Due5min) \<in> set (snd (snd (scan_pass (demo_env (clock 2030 1 1 9 55 0 500000)
      (clock 2030 1 1 9 55 1 0)) demo_store))) \<and>
   abs_store demo_store 1 ''1'' = Some (new_task (Some ''Report'') (Some ''01.01.2030 10:00'') ''01.12.2029 08:00'') \<and>
   \<not> completed (new_task (Some ''Report'') (Some ''01.01.2030 10:00'') ''01.12.2029 08:00'')"
proof -
  let ?e = "demo_env (clock 2030 1 1 9 55 0 500000) (clock 2030 1 1 9 55 1 0)"
  have wf: "wf_store demo_store" by (simp add: wf_store_def demo_store_def)
  have "\<exists>st1. scan_pass ?e demo_store = (None, st1, [(1, ''1'', Due5min)])"
    by (simp add: scan_eval)
  then obtain st1 where run: "scan_pass ?e demo_store = (None, st1, [(1, ''1'', Due5min)])" ..
  have sent: "(1, ''1'', Due5min) \<in> set [(1::int, ''1'', Due5min)]" by simp
  have tk: "abs_store demo_store 1 ''1'' =
      Some (new_task (Some ''Report'') (Some ''01.01.2030 10:00'') ''01.12.2029 08:00'')"
    by (simp add: demo_store_def abs_store_def user_tasks_def)
  show ?thesis
    using scan_pass_skips_completed [OF wf run sent tk] wf run tk by simp
qed

text \<open>C2. Once a pass has sent a reminder for a task and recorded the minute of the send,
  a later pass whose clock shows that same minute sends nothing for the task: every gate
  probe (date, hour, minute) is a prefix of the recorded stamp.\<close>

theorem scan_no_second_reminder_same_minute:
  assumes "wf_store st0" and "scan_pass env1 st0 = (r1, st1, ns1)" and "(u, t, k) \<in> set ns1"
    and "scan_pass env2 st1 = (r2, st2, ns2)"
    and "strftime_minute (now env2) = strftime_minute (sent_at env1 u t)"
  shows "(u, t, k') \<notin> set ns2"
proof
  assume sent: "(u, t, k') \<in> set ns2"
  obtain tk1 where tk1: "abs_store st1 u t = Some tk1"
      and stamp: "strftime_minute (sent_at env1 u t) \<in> set (reminded_at tk1)"
    using scan_users_stamp [of env1 "map fst st0" st0 r1 st1 ns1 u t k] assms(2,3)
    by (auto simp: scan_pass_def)
  have wf1: "wf_store st1" using wf_scan_pass [OF assms(2,1)] .
  obtain tk where tk: "abs_store st1 u t = Some tk" and n: "notifiable env2 tk k'"
    using scan_pass_notif [OF assms(4) wf1 sent] by auto
  have "strftime_minute (now env2) \<in> set (reminded_at tk)"
    using tk tk1 stamp assms(5) by simp
  then have "\<And>d. scan_branch (now env2) d (reminded_at tk) = None"
    by (rule scan_branch_blocked)
  then show False using n by (auto simp: notifiable_def split: option.splits)
qed

theorem scan_no_second_reminder_same_minute_witness:
  "wf_store demo_store \<and>
   (1, ''1'', Due5min) \<in> set (snd (snd (scan_pass (demo_env (clock 2030 1 1 9 55 0 500000)
      (clock 2030 1 1 9 55 1 0)) demo_store))) \<and>
   strftime_minute (clock 2030 1 1 9 55 31 0) = strftime_minute (clock 2030 1 1 9 55 1 0) \<and>
   (1, ''1'', Due5min) \<notin> set (snd (snd (scan_pass (demo_env (clock 2030 1 1 9 55 31 0)
      (clock 2030 1 1 9 55 32 0)) (fst (snd (scan_pass (demo_env (clock 2030 1 1 9 55 0 500000)
      (clock 2030 1 1 9 55 1 0)) demo_store))))))"
proof -
  let ?e1 = "demo_env (clock 2030 1 1 9 55 0 500000) (clock 2030 1 1 9 55 1 0)"
  let ?e2 = "demo_env (clock 2030 1 1 9 55 31 0) (clock 2030 1 1 9 55 32 0)"
  have wf: "wf_store demo_store" by (simp add: wf_store_def demo_store_def)
  have "\<exists>st1. scan_pass ?e1 demo_store = (None, st1, [(1, ''1'', Due5min)])"
    by (simp add: scan_eval)
  then obtain st1 where run1: "scan_pass ?e1 demo_store = (None, st1, [(1, ''1'', Due5min)])" ..
  have sent: "(1, ''1'', Due5min) \<in> set [(1::int, ''1'', Due5min)]" by simp
  obtain r2 st2 ns2 where run2: "scan_pass ?e2 st1 = (r2, st2, ns2)"
    by (cases "scan_pass ?e2 st1") auto
  have same: "strftime_minute (now ?e2) = strftime_minute (sent_at ?e1 1 ''1'')"
    by (simp add: scan_eval)
  show ?thesis
    using scan_no_second_reminder_same_minute [OF wf run1 sent run2 same] wf run1 run2 same
    by (simp add: demo_env_def)
qed


text \<open>C19. The one-hour reminder tests only the sub-day part \<^verbatim>\<open>time_diff.seconds\<close>: with
  k days and 59 to 60 minutes left, for any k of at least 2, a task gets the message "due in
  1 hour" (once per clock hour), so it is sent on every day before the deadline.\<close>

theorem one_hour_reminder_any_day:
  assumes "find_task st u t = Some tk" "\<not> completed tk" "deadline tk = Some s" "parse_deadline s = Some dl"
    and "dt_sub dl (now env) = int k * 86400000000 + r" "2 \<le> k" "3541000000 \<le> r" "r < 3601000000"
    and "\<not> sublist (strftime_hour (now env)) (concat (reminded_at tk))" "delivers env u t"
  shows "check_task env u (t, tk) st =
           (None, record_reminder u t (strftime_minute (sent_at env u t)) st, [(u, t, Due1h)])"
proof -
  have "td_days (dt_sub dl (now env)) = int k" "td_seconds (dt_sub dl (now env)) = r div 1000000"
    using td_split [OF assms(5)] assms(7,8) by simp_all
  moreover have "3540 < r div 1000000" "r div 1000000 \<le> 3600" using assms(7,8) by simp_all
  ultimately have "scan_branch (now env) (dt_sub dl (now env)) (reminded_at tk) = Some Due1h"
    "reminder_kind_of (dt_sub dl (now env)) = Some Due1h"
    using assms(6,9) by (simp_all add: scan_branch_def reminder_kind_of_def Let_def)
  then show ?thesis using check_task_sends [OF assms(1-4) _ _ assms(10)] by blast
qed

theorem one_hour_reminder_any_day_witness:
  "check_task (demo_env (clock 2029 12 29 9 0 0 0) (clock 2029 12 29 9 0 1 0)) 1
     (''1'', new_task (Some ''Report'') (Some ''01.01.2030 10:00'') ''01.12.2029 08:00'') demo_store =
   (None, record_reminder 1 ''1'' ''29.12.2029 09:00'' demo_store, [(1, ''1'', Due1h)])"
proof -
  let ?tk = "new_task (Some ''Report'') (Some ''01.01.2030 10:00'') ''01.12.2029 08:00''"
  let ?e = "demo_env (clock 2029 12 29 9 0 0 0) (clock 2029 12 29 9 0 1 0)"
  have p: "parse_deadline ''01.01.2030 10:00'' = Some (clock 2030 1 1 10 0 0 0)"
    by (simp add: strptime_eval clock_def)
  have d: "dt_sub (clock 2030 1 1 10 0 0 0) (now ?e) = int 3 * 86400000000 + 3600000000"
    by (simp add: demo_env_def clock_def datetime_eval is_leap_def)
  have "check_task ?e 1 (''1'', ?tk) demo_store =
      (None, record_reminder 1 ''1'' (strftime_minute (sent_at ?e 1 ''1'')) demo_store, [(1, ''1'', Due1h)])"
    by (rule one_hour_reminder_any_day [OF _ _ _ p d])
       (simp_all add: demo_store_def find_task_def new_task_def demo_env_def)
  then show ?thesis by (simp add: demo_env_def clock_def strftime_minute_def strftime_hour_def
      strftime_date_def pad2_def pad4_def show_nat.simps digit_char_def)
qed

text \<open>C20. The 24-hour window is gated by today's date only: for a task in the window
  (\<^verbatim>\<open>time_diff.days == 1\<close>), firing records stamped on other calendar days never
  block it, so the 24-hour reminder is sent again on each date the window covers (twice when
  the window spans midnight), whatever reminders were recorded on the earlier dates.\<close>

theorem due24h_other_days:
  assumes "valid_datetime n"
    and "\<forall>s \<in> set ss. valid_datetime s \<and> strftime_date s \<noteq> strftime_date n"
    and "td_days d = 1"
  shows "scan_branch n d (map strftime_minute ss) = Some Due24h \<and> reminder_kind_of d = Some Due24h"
proof -
  have "\<not> sublist (strftime_date n) (concat (map strftime_minute ss))"
    using date_in_stamps [OF assms(1)] assms(2) by blast
  then show ?thesis using assms(3) by (simp add: scan_branch_def reminder_kind_of_def Let_def)
qed

theorem due24h_other_days_witness:
  "scan_branch (clock 2029 12 31 0 0 10 0) (dt_sub (clock 2030 1 1 10 0 0 0) (clock 2029 12 31 0 0 10 0))
     (map strftime_minute [clock 2029 12 30 10 0 31 0]) = Some Due24h \<and>
   reminder_kind_of (dt_sub (clock 2030 1 1 10 0 0 0) (clock 2029 12 31 0 0 10 0)) = Some Due24h"
proof -
  have v: "valid_datetime (clock 2029 12 31 0 0 10 0)"
    by (simp add: valid_datetime_def clock_def days_in_month_lib_def)
  have r: "\<forall>s \<in> set [clock 2029 12 30 10 0 31 0]. valid_datetime s \<and>
             strftime_date s \<noteq> strftime_date (clock 2029 12 31 0 0 10 0)"
    by (simp add: valid_datetime_def clock_def days_in_month_lib_def datetime_eval)
  have d: "td_days (dt_sub (clock 2030 1 1 10 0 0 0) (clock 2029 12 31 0 0 10 0)) = 1"
    by (simp add: datetime_eval clock_def is_leap_def)
  show ?thesis by (rule due24h_other_days [OF v r d])
qed

text \<open>C21. In the last minute before a deadline the at-deadline window of
  \<^verbatim>\<open>check_deadlines\<close> is the one that fires, but \<^verbatim>\<open>send_reminder\<close> chooses its text
  from \<^verbatim>\<open>time_diff.seconds\<close>: with 1 to 59 seconds left it sends the "due in 5 minutes"
  message, and with less than a second left it sends nothing and records nothing.\<close>

theorem last_minute_message:
  assumes "0 < d" "d < 60000000"
  shows "scan_branch n d ra = (if sublist (strftime_minute n) (concat ra) then None else Some DueNow) \<and>
         reminder_kind_of d = (if 1000000 \<le> d then Some Due5min else None)"
proof -
  have "td_abs_total_lt_60 d" using assms by (simp add: td_abs_total_lt_60_def)
  moreover have "\<not> td_total_nonpos d" using assms by (simp add: td_total_nonpos_def)
  moreover have "1 \<le> d div 1000000 \<longleftrightarrow> 1000000 \<le> d" using assms by auto
  ultimately show ?thesis
    using last_minute_td [OF assms] by (auto simp: scan_branch_def reminder_kind_of_def Let_def)
qed

theorem last_minute_message_witness:
  "scan_branch (clock 2030 1 1 9 59 30 0) 30000000 [] = Some DueNow \<and>
   reminder_kind_of 30000000 = Some Due5min \<and>
   reminder_kind_of 500000 = None"
  using last_minute_message [of 30000000 "clock 2030 1 1 9 59 30 0" "[]"]
    last_minute_message [of 500000 "clock 2030 1 1 9 59 30 0" "[]"]
  by simp

text \<open>C22. \<^verbatim>\<open>check_deadlines\<close> catches only \<^verbatim>\<open>ValueError\<close>: whenever a pass
  meets a task due for a reminder whose user cannot be messaged, the pass ends with an
  exception, and the scanner loop ends with it: no later pass runs, whatever the later
  clock readings and deliveries.\<close>

theorem send_failure_ends_run:
  assumes "abs_store st u t = Some tk" and "notifiable e tk k" and "\<not> delivers e u t"
  shows "fst (scan_pass e st) \<noteq> None \<and> scan_run (e # es) st = scan_pass e st"
proof -
  have r: "fst (scan_pass e st) \<noteq> None"
    using scan_users_send_fails [OF abs_store_Some_user [OF assms(1)] assms] by (simp add: scan_pass_def)
  then have "scan_run (e # es) st = scan_pass e st" by (auto split: prod.splits option.splits)
  with r show ?thesis by simp
qed

theorem send_failure_ends_run_witness:
  "fst (scan_pass failing_env two_users) \<noteq> None \<and>
   scan_run [failing_env, demo_env (clock 2030 1 1 9 55 0 0) (clock 2030 1 1 9 55 1 0)] two_users =
   scan_pass failing_env two_users"
proof -
  let ?tk = "new_task (Some ''Report'') (Some ''01.01.2030 10:00'') ''01.12.2029 08:00''"
  have a: "abs_store two_users 1 ''1'' = Some ?tk" by (simp add: abs_store_def two_users_def user_tasks_def)
  have n: "notifiable failing_env ?tk Due1h"
    by (simp add: notifiable_def scan_eval failing_env_def sublist_code)
  have d: "\<not> delivers failing_env 1 ''1''" by (simp add: failing_env_def)
  show ?thesis by (rule send_failure_ends_run [OF a n d])
qed

text \<open>C23. Over any run of passes the store stays well-formed and only grows: every task
  keeps its fields and its firing record is extended at the end.\<close>

theorem scan_run_invariant:
  "scan_run es st = (r, st', ns) \<Longrightarrow> wf_store st \<Longrightarrow> wf_store st' \<and> store_grows st st'"
proof (induction es arbitrary: st r st' ns)
  case Nil
  then show ?case by simp
next
  case (Cons e es)
  obtain r1 st1 ns1 where p: "scan_pass e st = (r1, st1, ns1)" by (cases "scan_pass e st") auto
  have wf1: "wf_store st1" and g1: "store_grows st st1"
    using wf_scan_pass [OF p Cons.prems(2)] scan_pass_grows [OF p] by simp_all
  show ?case
  proof (cases r1)
    case (Some err)
    then show ?thesis using Cons.prems(1) p wf1 g1 by simp
  next
    case None
    obtain r2 st2 ns2 where q: "scan_run es st1 = (r2, st2, ns2)" by (cases "scan_run es st1") auto
    then have "st' = st2" using Cons.prems(1) p None by simp
    then show ?thesis using Cons.IH [OF q wf1] g1 by (blast intro: store_grows_trans)
  qed
qed

theorem scan_run_invariant_witness:
  "wf_store (fst (snd (scan_run [demo_env (clock 2030 1 1 9 55 0 500000) (clock 2030 1 1 9 55 1 0)] demo_store))) \<and>
   store_grows demo_store (fst (snd (scan_run [demo_env (clock 2030 1 1 9 55 0 500000) (clock 2030 1 1 9 55 1 0)] demo_store)))"
proof -
  have wf: "wf_store demo_store" by (simp add: wf_store_def demo_store_def)
  obtain r st' ns where q: "scan_run [demo_env (clock 2030 1 1 9 55 0 500000) (clock 2030 1 1 9 55 1 0)]
      demo_store = (r, st', ns)"
    by (cases "scan_run [demo_env (clock 2030 1 1 9 55 0 500000) (clock 2030 1 1 9 55 1 0)] demo_store") auto
  show ?thesis using scan_run_invariant [OF q wf] q by simp
qed

lemma window_hit:
  "gaps_le 60000000 ts \<Longrightarrow> ts \<noteq> [] \<Longrightarrow> 241000000 \<le> D - hd ts \<Longrightarrow> D - last ts < 301000000 \<Longrightarrow>
   \<exists>t \<in> set ts. 241000000 \<le> D - t \<and> D - t < 301000000"
proof (induction g\<equiv>"60000000::int" ts rule: gaps_le.induct)
  case (1 a b xs)
  show ?case
  proof (cases "D - a < 301000000")
    case True
    then show ?thesis using "1.prems"(3) by auto
  next
    case False
    then have "241000000 \<le> D - b" using "1.prems"(1) by simp
    then have "\<exists>t \<in> set (b # xs). 241000000 \<le> D - t \<and> D - t < 301000000"
      using "1.hyps" "1.prems" by simp
    then show ?thesis by auto
  qed
qed simp_all

lemma five_minute_window:
  assumes "241000000 \<le> d" "d < 301000000"
  shows "(\<not> sublist (strftime_minute n) (concat ra) \<longrightarrow> scan_branch n d ra = Some Due5min) \<and>
         reminder_kind_of d = Some Due5min"
proof -
  have "td_days d = 0" "td_seconds d = d div 1000000" using assms by (simp_all add: td_days_def td_seconds_def)
  moreover have "240 < d div 1000000" "d div 1000000 \<le> 300" using assms by simp_all
  ultimately show ?thesis by (simp add: scan_branch_def reminder_kind_of_def Let_def)
qed

text \<open>C26. The 24-hour gate looks for today's date anywhere in the firing records, so
  any reminder recorded earlier the same calendar day, of whichever kind (a "1 hour"
  reminder sent two days and one hour before the deadline included), blocks the 24-hour
  window for the rest of that day.\<close>

theorem due24h_suppressed_same_day:
  assumes "strftime_minute s \<in> set ra" and "strftime_date s = strftime_date n"
  shows "scan_branch n d ra \<noteq> Some Due24h"
  using date_prefix_stamp [OF assms] by (simp add: scan_branch_def Let_def)

theorem due24h_suppressed_same_day_witness:
  "td_days (dt_sub (clock 2030 1 1 10 0 0 0) (clock 2029 12 30 10 0 30 0)) = 1 \<and>
   scan_branch (clock 2029 12 30 10 0 30 0) (dt_sub (clock 2030 1 1 10 0 0 0) (clock 2029 12 30 10 0 30 0))
     [strftime_minute (clock 2029 12 30 9 0 1 0)] \<noteq> Some Due24h"
proof -
  have d: "td_days (dt_sub (clock 2030 1 1 10 0 0 0) (clock 2029 12 30 10 0 30 0)) = 1"
    by (simp add: datetime_eval clock_def is_leap_def)
  have "strftime_minute (clock 2029 12 30 9 0 1 0) \<in> set [strftime_minute (clock 2029 12 30 9 0 1 0)]"
    "strftime_date (clock 2029 12 30 9 0 1 0) = strftime_date (clock 2029 12 30 10 0 30 0)"
    by (simp_all add: clock_def strftime_date_def)
  from due24h_suppressed_same_day [OF this] show ?thesis using d by simp
qed

text \<open>C27. The 5-minute window is never skipped while passes are at most 60 seconds apart:
  if the clock readings of consecutive passes differ by at most 60 s and run from at least
  241 s to less than 301 s before the deadline, one of them falls in the window, where the
  scanner fires unless that minute is already recorded, and the message is the 5-minute
  one.\<close>

theorem five_minute_reminder_not_skipped:
  assumes "gaps_le 60000000 (map dt_micros ns)" and "ns \<noteq> []"
    and "241000000 \<le> dt_micros dl - dt_micros (hd ns)" and "dt_micros dl - dt_micros (last ns) < 301000000"
  shows "\<exists>n \<in> set ns. (\<forall>ra. \<not> sublist (strftime_minute n) (concat ra) \<longrightarrow> scan_branch n (dt_sub dl n) ra = Some Due5min) \<and>
           reminder_kind_of (dt_sub dl n) = Some Due5min"
proof -
  have "\<exists>t \<in> set (map dt_micros ns). 241000000 \<le> dt_micros dl - t \<and> dt_micros dl - t < 301000000"
    using window_hit [OF assms(1), of "dt_micros dl"] assms(2-4) by (simp add: hd_map last_map)
  then obtain n where "n \<in> set ns" "241000000 \<le> dt_sub dl n" "dt_sub dl n < 301000000"
    by (auto simp: dt_sub_def)
  then show ?thesis using five_minute_window by blast
qed

theorem five_minute_reminder_not_skipped_witness:
  "scan_branch (clock 2030 1 1 9 55 0 0) (dt_sub (clock 2030 1 1 10 0 0 0) (clock 2030 1 1 9 55 0 0)) [] =
     Some Due5min \<and>
   reminder_kind_of (dt_sub (clock 2030 1 1 10 0 0 0) (clock 2030 1 1 9 55 0 0)) = Some Due5min"
proof -
  have "dt_micros (clock 2030 1 1 10 0 0 0) - dt_micros (clock 2030 1 1 9 55 0 0) = 300000000"
    by (simp add: clock_def dt_micros_def)
  then have "(\<forall>ra. \<not> sublist (strftime_minute (clock 2030 1 1 9 55 0 0)) (concat ra) \<longrightarrow>
      scan_branch (clock 2030 1 1 9 55 0 0) (dt_sub (clock 2030 1 1 10 0 0 0) (clock 2030 1 1 9 55 0 0)) ra =
        Some Due5min) \<and>
    reminder_kind_of (dt_sub (clock 2030 1 1 10 0 0 0) (clock 2030 1 1 9 55 0 0)) = Some Due5min"
    using five_minute_reminder_not_skipped [of "[clock 2030 1 1 9 55 0 0]" "clock 2030 1 1 10 0 0 0"] by simp
  then show ?thesis by (auto dest: spec [of _ "[]"])
qed

end
