(* ===== verification/Calendar.thy ===== *)
theory Calendar
  imports Strptime
begin

text \<open>The calendar of the task dialog: the selectable values of the keyboards built by
  \<^verbatim>\<open>get_month_keyboard\<close>, \<^verbatim>\<open>get_day_keyboard\<close>, and the hour and minute keyboards
  that \<^verbatim>\<open>process_day_selection\<close> and \<^verbatim>\<open>process_hour_selection\<close> build inline
  (src/main.py), with the callback payloads the buttons carry and the deadline strings the
  dialog assembles from them.  A keyboard is modelled by the payloads of its buttons in order;
  labels and the row layout are presentation and are not modelled.\<close>

section \<open>Payloads: \<^verbatim>\<open>str.split("_")\<close> and \<^verbatim>\<open>int(s)\<close>\<close>

text \<open>\<^verbatim>\<open>s.split(c)\<close> with an explicit one-character separator: empty fields are kept.\<close>

fun py_split_sep :: "char \<Rightarrow> string \<Rightarrow> string list" where
  "py_split_sep c [] = [[]]"
| "py_split_sep c (x # xs) =
     (if x = c then [] # py_split_sep c xs
      else (let r = py_split_sep c xs in (x # hd r) # tl r))"

text \<open>\<^verbatim>\<open>int(s)\<close> on the payload fields: a non-empty run of ASCII digits is read, anything
  else raises \<^verbatim>\<open>ValueError\<close> (signs, surrounding blanks and digit separators, which
  \<^verbatim>\<open>int\<close> also accepts, never occur in the payloads the keyboards build).\<close>

definition py_int :: "string \<Rightarrow> py_error + nat" where
  "py_int s = (if s \<noteq> [] \<and> list_all is_digit s then Inr (read_digits s) else Inl ValueError)"

section \<open>Month keyboard\<close>

text \<open>The season groups of \<^verbatim>\<open>get_month_keyboard\<close>, for the current month \<open>cm\<close> and
  current year \<open>cy\<close>.  The year is at least 1 (\<^verbatim>\<open>datetime.MINYEAR\<close>), so
  \<open>cy - 1\<close> is exact.\<close>

definition seasons :: "nat \<Rightarrow> nat \<Rightarrow> (nat \<times> nat \<times> string) list list" where
  "seasons cm cy =
     (if cm \<le> 2 then [[(12, cy - 1, ''December''), (1, cy, ''January''), (2, cy, ''February'')]] else []) @
     (if cm \<le> 5 then [[(3, cy, ''March''), (4, cy, ''April''), (5, cy, ''May'')]] else []) @
     (if cm \<le> 8 then [[(6, cy, ''June''), (7, cy, ''July''), (8, cy, ''August'')]] else []) @
     (if cm \<le> 11 then [[(9, cy, ''September''), (10, cy, ''October''), (11, cy, ''November'')]] else []) @
     [[(12, cy, ''December''), (1, cy + 1, ''January''), (2, cy + 1, ''February'')]] @
     (if 2 < cm then [[(3, cy + 1, ''March''), (4, cy + 1, ''April''), (5, cy + 1, ''May'')]] else [])"

text \<open>The filter of the button loop: the month is not in the past.\<close>

definition month_available :: "nat \<Rightarrow> nat \<Rightarrow> nat \<Rightarrow> nat \<Rightarrow> bool" where
  "month_available cm cy m y \<longleftrightarrow> cy < y \<or> (y = cy \<and> cm \<le> m)"

definition month_options :: "nat \<Rightarrow> nat \<Rightarrow> (nat \<times> nat) list" where
  "month_options cm cy =
     [(m, y). (m, y, _) \<leftarrow> concat (seasons cm cy), month_available cm cy m y]"

definition month_payload :: "nat \<Rightarrow> nat \<Rightarrow> string" where
  "month_payload m y = ''month_'' @ show_nat m @ ''_'' @ show_nat y"

text \<open>\<^verbatim>\<open>get_month_keyboard()\<close>: the header, one button per available month and
  \<^verbatim>\<open>Cancel\<close>.  The function reads the clock twice, \<^verbatim>\<open>datetime.now().month\<close> and then
  \<^verbatim>\<open>datetime.now().year\<close>, so the two readings are separate inputs.\<close>

definition get_month_keyboard :: "datetime \<Rightarrow> datetime \<Rightarrow> string list" where
  "get_month_keyboard now1 now2 =
     ''ignore'' # map (\<lambda>(m, y). month_payload m y) (month_options (month now1) (year now2))
     @ [''hide_calendar'']"

section \<open>Day keyboard\<close>

text \<open>The day count of \<^verbatim>\<open>get_day_keyboard\<close>, written out in the function itself.\<close>

definition days_in_month :: "nat \<Rightarrow> nat \<Rightarrow> nat" where
  "days_in_month m y =
     (if m \<in> set [4, 6, 9, 11] then 30
      else if m = 2 then (if y mod 4 = 0 \<and> (y mod 100 \<noteq> 0 \<or> y mod 400 = 0) then 29 else 28)
      else 31)"

definition is_current_month :: "datetime \<Rightarrow> nat \<Rightarrow> nat \<Rightarrow> bool" where
  "is_current_month now m y \<longleftrightarrow> m = month now \<and> y = year now"

definition start_day :: "datetime \<Rightarrow> nat \<Rightarrow> nat \<Rightarrow> nat" where
  "start_day now m y = (if is_current_month now m y then day now else 1)"

text \<open>\<^verbatim>\<open>available_days\<close>: each day with the flag that marks today (\<^verbatim>\<open>[d]\<close>).\<close>

definition available_days :: "datetime \<Rightarrow> nat \<Rightarrow> nat \<Rightarrow> (nat \<times> bool) list" where
  "available_days now m y =
     [(d, d = day now \<and> is_current_month now m y). d \<leftarrow> [start_day now m y ..< days_in_month m y + 1]]"

definition day_payload :: "nat \<Rightarrow> nat \<Rightarrow> nat \<Rightarrow> string" where
  "day_payload d m y = ''day_'' @ show_nat d @ ''_'' @ show_nat m @ ''_'' @ show_nat y"

text \<open>\<^verbatim>\<open>get_day_keyboard(month, year)\<close>.  Building \<^verbatim>\<open>datetime(year, month, 1)\<close> and
  \<^verbatim>\<open>datetime(year, month, start_day)\<close> raises \<^verbatim>\<open>ValueError\<close> for an invalid date; the
  weekday computed from the second is not used.\<close>

definition get_day_keyboard :: "datetime \<Rightarrow> nat \<Rightarrow> nat \<Rightarrow> py_error + string list" where
  "get_day_keyboard now m y =
     (if \<not> (1 \<le> y \<and> y \<le> 9999 \<and> 1 \<le> m \<and> m \<le> 12 \<and>
            1 \<le> start_day now m y \<and> start_day now m y \<le> days_in_month_lib y m)
      then Inl ValueError
      else if available_days now m y = []
      then Inr [''ignore'', ''back_to_month'', ''hide_calendar'']
      else Inr (map (\<lambda>(d, _). day_payload d m y) (available_days now m y) @
                [''back_to_month'', ''hide_calendar'', day_payload (day now) (month now) (year now)]))"

section \<open>Hour and minute keyboards\<close>

text \<open>\<^verbatim>\<open>range(a, b, s)\<close> for a positive step.\<close>

function py_range :: "nat \<Rightarrow> nat \<Rightarrow> nat \<Rightarrow> nat list" where
  "py_range a b s = (if 0 < s \<and> a < b then a # py_range (a + s) b s else [])"
  by pat_completeness auto
termination by (relation "measure (\<lambda>(a, b, s). b - a)") auto

declare py_range.simps [simp del]

definition is_today :: "datetime \<Rightarrow> nat \<Rightarrow> nat \<Rightarrow> nat \<Rightarrow> bool" where
  "is_today now d m y \<longleftrightarrow> d = day now \<and> m = month now \<and> y = year now"

text \<open>\<^verbatim>\<open>available_hours\<close> of \<^verbatim>\<open>process_day_selection\<close>.\<close>

definition hour_options :: "datetime \<Rightarrow> nat \<Rightarrow> nat \<Rightarrow> nat \<Rightarrow> nat list" where
  "hour_options now d m y = (if is_today now d m y then [hour now ..< 24] else [0 ..< 24])"

text \<open>\<^verbatim>\<open>available_minutes\<close> of \<^verbatim>\<open>process_hour_selection\<close>.\<close>

definition minute_options :: "datetime \<Rightarrow> nat \<Rightarrow> nat \<Rightarrow> nat \<Rightarrow> nat \<Rightarrow> nat list" where
  "minute_options now d m y h =
     (if is_today now d m y \<and> h = hour now
      then (let r = (minute now div 5 + 1) * 5 in if r < 60 then py_range r 60 5 else [])
      else py_range 0 60 5)"

section \<open>Deadline strings\<close>

text \<open>\<^verbatim>\<open>date_str = f"{day:02d}.{month:02d}.{year}"\<close> of \<^verbatim>\<open>process_day_selection\<close>.\<close>

definition date_str :: "nat \<Rightarrow> nat \<Rightarrow> nat \<Rightarrow> string" where
  "date_str d m y = pad2 d @ ''.'' @ pad2 m @ ''.'' @ show_nat y"

text \<open>The time field of the payload \<^verbatim>\<open>fulltime_{hour}:{m:02d}\<close>, where \<^verbatim>\<open>hour\<close> is the
  field of \<^verbatim>\<open>hour_{hour:02d}\<close>.\<close>

definition time_str :: "nat \<Rightarrow> nat \<Rightarrow> string" where
  "time_str h mi = pad2 h @ '':'' @ pad2 mi"


text \<open>A clock reading used by the examples: Friday 14 March 2025, 10:57.\<close>

definition pick_now :: datetime where
  "pick_now = \<lparr>year = 2025, month = 3, day = 14, hour = 10, minute = 57, second = 0, microsecond = 0\<rparr>"

section \<open>Payloads, ranges and day counts\<close>

lemma py_split_sep_no_sep: "c \<notin> set xs \<Longrightarrow> py_split_sep c xs = [xs]"
  by (induction xs) (auto simp: Let_def)

lemma py_split_sep_field:
  "c \<notin> set xs \<Longrightarrow> py_split_sep c (xs @ c # ys) = xs # py_split_sep c ys"
  by (induction xs) (auto simp: Let_def)

lemma is_digit_not_sep: "is_digit c \<Longrightarrow> c \<noteq> CHR ''_''"
  by (auto simp: is_digit_def)

lemma show_nat_no_sep: "CHR ''_'' \<notin> set (show_nat n)"
  using show_nat_digits is_digit_not_sep by blast

lemma py_int_show_nat: "py_int (show_nat n) = Inr n"
  by (simp add: py_int_def list_all_iff show_nat_digits)

lemma day_payload_split:
  "py_split_sep CHR ''_'' (day_payload d m y) = [''day'', show_nat d, show_nat m, show_nat y]"
  by (simp add: day_payload_def py_split_sep_field show_nat_no_sep py_split_sep_no_sep)

lemma month_payload_split:
  "py_split_sep CHR ''_'' (month_payload m y) = [''month'', show_nat m, show_nat y]"
  by (simp add: month_payload_def py_split_sep_field show_nat_no_sep py_split_sep_no_sep)

lemma py_range_mem: "x \<in> set (py_range a b s) \<Longrightarrow> a \<le> x \<and> x < b \<and> s dvd (x - a)"
proof (induction a b s rule: py_range.induct)
  case (1 a b s)
  show ?case
  proof (cases "0 < s \<and> a < b")
    case True
    then have "x = a \<or> x \<in> set (py_range (a + s) b s)"
      using 1(2) by (simp add: py_range.simps [of a])
    then show ?thesis
    proof
      assume "x \<in> set (py_range (a + s) b s)"
      then have "a + s \<le> x \<and> x < b \<and> s dvd (x - (a + s))" using 1(1) True by blast
      moreover have "x - a = (x - (a + s)) + s" using calculation by simp
      ultimately show ?thesis by (metis dvd_add_triv_right_iff le_add1 order_trans)
    qed (use True in simp)
  next
    case False
    then show ?thesis using 1(2) by (simp add: py_range.simps [of a])
  qed
qed

lemma month_cases: "1 \<le> (m::nat) \<Longrightarrow> m \<le> 12 \<Longrightarrow>
  m = 1 \<or> m = 2 \<or> m = 3 \<or> m = 4 \<or> m = 5 \<or> m = 6 \<or> m = 7 \<or> m = 8 \<or> m = 9 \<or> m = 10 \<or> m = 11 \<or> m = 12"
  by arith

lemma days_in_month_lib_eq: "1 \<le> m \<Longrightarrow> m \<le> 12 \<Longrightarrow> days_in_month m y = days_in_month_lib y m"
  by (drule (1) month_cases) (elim disjE; simp add: days_in_month_def days_in_month_lib_def is_leap_def)

lemma pad2_is_digit: "c \<in> set (pad2 n) \<Longrightarrow> is_digit c"
proof -
  assume "c \<in> set (pad2 n)"
  then have "c = CHR ''0'' \<or> c \<in> set (show_nat n)"
    by (auto simp: pad2_def simp del: show_nat_small split: if_splits)
  then show ?thesis by (elim disjE) (simp add: is_digit_def, rule show_nat_digits)
qed

lemma digit_not_space: "is_digit c \<Longrightarrow> \<not> py_isspace c"
  by (auto simp: is_digit_def py_isspace_def)

lemma date_str_no_space: "c \<in> set (date_str d m y) \<Longrightarrow> \<not> py_isspace c"
  by (auto simp: date_str_def py_isspace_def dest!: pad2_is_digit show_nat_digits digit_not_space)

lemma time_str_no_space: "c \<in> set (time_str h mi) \<Longrightarrow> \<not> py_isspace c"
  by (auto simp: time_str_def py_isspace_def dest!: pad2_is_digit digit_not_space)

lemma py_split_date_str: "py_split (date_str d m y) = [date_str d m y]"
  using py_split_word [of "date_str d m y" "[]"] date_str_no_space
  by (simp add: date_str_def py_split_Nil_iff)

lemma py_split_date_time:
  "py_split (date_str d m y @ '' '' @ time_str h mi) = [date_str d m y, time_str h mi]"
proof -
  have t: "py_split (time_str h mi) = [time_str h mi]"
    using py_split_word [of "time_str h mi" "[]"] time_str_no_space
    by (simp add: time_str_def py_split_Nil_iff)
  have "py_split ('' '' @ time_str h mi) = [time_str h mi]"
    using py_split_spaces_append [of "'' ''" "time_str h mi"] t by (simp add: py_isspace_def)
  moreover have "py_split (date_str d m y @ '' '' @ time_str h mi) =
      date_str d m y # py_split ('' '' @ time_str h mi)"
    by (rule py_split_word) (simp add: date_str_def, use date_str_no_space in blast, simp add: py_isspace_def)
  ultimately show ?thesis by simp
qed

lemma strptime_date_time:
  assumes "1 \<le> m" "m \<le> 12" "1 \<le> d" "d \<le> days_in_month m y" "1000 \<le> y" "y < 10000"
    "h < 24" "mi < 60"
  shows "py_strptime (date_str d m y @ '' '' @ time_str h mi) =
         Some \<lparr>year = y, month = m, day = d, hour = h, minute = mi, second = 0, microsecond = 0\<rparr>"
proof -
  have "d \<le> days_in_month_lib y m" using assms(1,2,4) days_in_month_lib_eq by simp
  then show ?thesis
    using py_strptime_format [OF assms(1,2,3) _ assms(5-8)] by (simp add: date_str_def time_str_def)
qed

lemma day_payload_inj: "day_payload d m y = day_payload d' m' y' \<longleftrightarrow> d = d' \<and> m = m' \<and> y = y'"
  by (metis day_payload_split list.inject show_nat_inj)

lemma day_payload_not_nav:
  "day_payload d m y \<noteq> ''ignore''" "day_payload d m y \<noteq> ''back_to_month''"
  "day_payload d m y \<noteq> ''hide_calendar''"
  by (simp_all add: day_payload_def)

lemma mem_available_days:
  "(d, t) \<in> set (available_days now m y) \<longleftrightarrow>
     start_day now m y \<le> d \<and> d \<le> days_in_month m y \<and> t = (d = day now \<and> is_current_month now m y)"
  by (auto simp: available_days_def)

lemma month_payload_inj: "month_payload m y = month_payload m' y' \<longleftrightarrow> m = m' \<and> y = y'"
  by (metis month_payload_split list.inject show_nat_inj)

lemma month_payload_not_nav: "month_payload m y \<noteq> ''ignore''" "month_payload m y \<noteq> ''hide_calendar''"
  by (simp_all add: month_payload_def)

lemmas calendar_eval = get_day_keyboard_def available_days_def start_day_def is_current_month_def
  days_in_month_def days_in_month_lib_def is_leap_def hour_options_def minute_options_def is_today_def
  pick_now_def

section \<open>Properties of the keyboards\<close>

text \<open>C8. The month keyboard offers exactly the consecutive months from the current month
  up to February of next year (current month January or February) or May of next year
  (otherwise): month \<open>k\<close> of the run is \<open>(k mod 12 + 1, cy + k div 12)\<close>.  So the
  window has 15 - cm or 18 - cm months (6 in December, 15 in March), never a month in
  the past, and never December of the previous year.\<close>

theorem month_window:
  "1 \<le> cm \<Longrightarrow> cm \<le> 12 \<Longrightarrow> 1 \<le> cy \<Longrightarrow>
   month_options cm cy = map (\<lambda>k. (k mod 12 + 1, cy + k div 12)) [cm - 1 ..< (if cm \<le> 2 then 14 else 17)]"
  by (drule (1) month_cases)
     (elim disjE; auto simp: month_options_def seasons_def month_available_def upt_conv_Cons)

theorem month_window_witness:
  "month_options 12 2025 = [(12, 2025), (1, 2026), (2, 2026), (3, 2026), (4, 2026), (5, 2026)]"
  using month_window [of 12 2025] by (simp add: upt_conv_Cons)

text \<open>C9. Every date a button of the day keyboard carries (a day of the shown month, or
  \<^verbatim>\<open>Today\<close>) is a valid calendar date by the library's rules, and in the current month
  no day before today is offered.\<close>

theorem day_buttons_valid:
  assumes "valid_datetime now" and "get_day_keyboard now m y = Inr ps" and "day_payload d m' y' \<in> set ps"
  shows "1 \<le> m' \<and> m' \<le> 12 \<and> 1 \<le> d \<and> d \<le> days_in_month_lib y' m' \<and> 1 \<le> y' \<and>
         (is_current_month now m' y' \<longrightarrow> day now \<le> d)"
proof -
  have g: "1 \<le> y \<and> y \<le> 9999 \<and> 1 \<le> m \<and> m \<le> 12 \<and> 1 \<le> start_day now m y"
    using assms(2) by (simp add: get_day_keyboard_def split: if_splits)
  have "ps = map (\<lambda>(d, _). day_payload d m y) (available_days now m y) @
             [''back_to_month'', ''hide_calendar'', day_payload (day now) (month now) (year now)]"
    using assms(2,3) by (auto simp: get_day_keyboard_def day_payload_not_nav split: if_splits)
  then have "(\<exists>t. (d, t) \<in> set (available_days now m y) \<and> m' = m \<and> y' = y) \<or>
             (d = day now \<and> m' = month now \<and> y' = year now)"
    using assms(3) by (auto simp: day_payload_inj day_payload_not_nav)
  then show ?thesis
  proof
    assume "\<exists>t. (d, t) \<in> set (available_days now m y) \<and> m' = m \<and> y' = y"
    then show ?thesis
      using g days_in_month_lib_eq [of m y]
      by (auto simp: mem_available_days start_day_def split: if_splits)
  next
    assume "d = day now \<and> m' = month now \<and> y' = year now"
    then show ?thesis using assms(1) by (simp add: valid_datetime_def)
  qed
qed

theorem day_buttons_valid_witness:
  "1 \<le> (3::nat) \<and> 3 \<le> (12::nat) \<and> 1 \<le> (20::nat) \<and> 20 \<le> days_in_month_lib 2025 3 \<and> 14 \<le> (20::nat)"
proof -
  have v: "valid_datetime pick_now" by (simp add: valid_datetime_def pick_now_def days_in_month_lib_def)
  have k: "get_day_keyboard pick_now 3 2025 =
      Inr (map (\<lambda>d. day_payload d 3 2025) [14 ..< 32] @
           [''back_to_month'', ''hide_calendar'', day_payload 14 3 2025])"
    by (simp add: calendar_eval case_prod_beta comp_def)
  have "day_payload 20 3 2025 \<in> set (map (\<lambda>d. day_payload d 3 2025) [14 ..< 32] @
           [''back_to_month'', ''hide_calendar'', day_payload 14 3 2025])"
    by simp
  then show ?thesis
    using day_buttons_valid [OF v k] by (simp add: is_current_month_def pick_now_def)
qed

text \<open>C10. Leap-year day count: in a month other than the current one, February offers the
  days 1 to 29 in a leap year and 1 to 28 otherwise (29 days in February 2024, 28 in
  February 2025).\<close>

theorem february_days:
  "\<not> is_current_month now 2 y \<Longrightarrow>
   map fst (available_days now 2 y) = [1 ..< (if is_leap y then 29 else 28) + 1]"
  by (simp add: available_days_def start_day_def days_in_month_def is_leap_def comp_def)

theorem february_days_witness:
  "length (available_days pick_now 2 2024) = 29 \<and> length (available_days pick_now 2 2025) = 28"
  using february_days [of pick_now 2024] february_days [of pick_now 2025]
  by (simp add: is_current_month_def pick_now_def is_leap_def flip: length_map [of fst])

text \<open>C11. The hour keyboard and the minute keyboard read the clock separately
  (\<^verbatim>\<open>process_day_selection\<close> and \<^verbatim>\<open>process_hour_selection\<close>): when the hour
  changes between the two readings, an hour that the first keyboard offered as not yet
  passed gets all twelve minutes \<open>:00\<close> to \<open>:55\<close> from the second, and every one of
  those times is already in the past at the second reading.\<close>

theorem picked_time_stale_hour:
  assumes "is_today now1 d m y" and "is_today now2 d m y" and "hour now2 < 24"
    and "hour now1 \<le> h" and "h < hour now2"
  shows "h \<in> set (hour_options now1 d m y) \<and>
         minute_options now2 d m y h = py_range 0 60 5 \<and>
         (\<forall>mi \<in> set (minute_options now2 d m y h). 60 * h + mi < 60 * hour now2 + minute now2)"
proof -
  have offered: "h \<in> set (hour_options now1 d m y)"
    using assms(1,3-5) by (simp add: hour_options_def)
  have all: "minute_options now2 d m y h = py_range 0 60 5"
    using assms(5) by (simp add: minute_options_def)
  have "60 * h + mi < 60 * hour now2 + minute now2" if "mi \<in> set (py_range 0 60 5)" for mi
    using py_range_mem [OF that] assms(5) by linarith
  then show ?thesis using offered all by simp
qed

theorem picked_time_stale_hour_witness:
  "10 \<in> set (hour_options pick_now 14 3 2025) \<and>
   minute_options (pick_now\<lparr>hour := 11, minute := 2\<rparr>) 14 3 2025 10 = py_range 0 60 5 \<and>
   60 * 10 + 55 < 60 * hour (pick_now\<lparr>hour := 11, minute := 2\<rparr>) + minute (pick_now\<lparr>hour := 11, minute := 2\<rparr>)"
proof -
  have "is_today pick_now 14 3 2025" "is_today (pick_now\<lparr>hour := 11, minute := 2\<rparr>) 14 3 2025"
    "hour (pick_now\<lparr>hour := 11, minute := 2\<rparr>) < 24" "hour pick_now \<le> 10"
    "10 < hour (pick_now\<lparr>hour := 11, minute := 2\<rparr>)"
    by (simp_all add: is_today_def pick_now_def)
  from picked_time_stale_hour [OF this] show ?thesis
    by (simp add: pick_now_def py_range.simps)
qed

text \<open>C12. The deadline string the dialog assembles from the picked day, month, year, hour and
  minute (\<^verbatim>\<open>f"{date_str} {time_str}"\<close>) is parsed back by the scanner to exactly that
  date and time, for every valid date with a four-digit year.\<close>

theorem deadline_roundtrip:
  assumes "1 \<le> m" "m \<le> 12" "1 \<le> d" "d \<le> days_in_month m y" "1000 \<le> y" "y < 10000"
    "h < 24" "mi < 60"
  shows "parse_deadline (date_str d m y @ '' '' @ time_str h mi) =
         Some \<lparr>year = y, month = m, day = d, hour = h, minute = mi, second = 0, microsecond = 0\<rparr>"
  using strptime_date_time [OF assms] unfolding parse_deadline_def py_split_date_time by simp

theorem deadline_roundtrip_witness:
  "parse_deadline (date_str 1 1 2030 @ '' '' @ time_str 10 0) =
   Some \<lparr>year = 2030, month = 1, day = 1, hour = 10, minute = 0, second = 0, microsecond = 0\<rparr>"
  using deadline_roundtrip [of 1 1 2030 10 0] by (simp add: days_in_month_def)

text \<open>C3. A deadline picked with \<^verbatim>\<open>All Day\<close> is stored as the bare date string
  \<^verbatim>\<open>f"{day:02d}.{month:02d}.{year}"\<close>, and the scanner reads it as that date at 23:59:
  for every valid date with a four-digit year.\<close>

theorem all_day_deadline:
  assumes "1 \<le> m" "m \<le> 12" "1 \<le> d" "d \<le> days_in_month m y" "1000 \<le> y" "y < 10000"
  shows "parse_deadline (date_str d m y) =
         Some \<lparr>year = y, month = m, day = d, hour = 23, minute = 59, second = 0, microsecond = 0\<rparr>"
proof -
  have one: "length (py_split (date_str d m y)) = 1" by (simp add: py_split_date_str)
  have t: "date_str d m y @ '' 23:59'' = date_str d m y @ '' '' @ time_str 23 59"
    by (simp add: time_str_def pad2_digits digit_char_def)
  have "parse_deadline (date_str d m y) = parse_deadline (date_str d m y @ '' 23:59'')"
    by (rule parse_deadline_date_only [OF one])
  also have "\<dots> = parse_deadline (date_str d m y @ '' '' @ time_str 23 59)"
    by (simp only: t)
  also have "\<dots> = py_strptime (date_str d m y @ '' '' @ time_str 23 59)"
    unfolding parse_deadline_def py_split_date_time by simp
  finally show ?thesis using strptime_date_time [OF assms, of 23 59] by simp
qed

theorem all_day_deadline_witness:
  "parse_deadline (date_str 29 2 2028) =
   Some \<lparr>year = 2028, month = 2, day = 29, hour = 23, minute = 59, second = 0, microsecond = 0\<rparr>"
  using all_day_deadline [of 2 29 2028] by (simp add: days_in_month_def)

text \<open>C13. \<^verbatim>\<open>get_month_keyboard\<close> reads the month and the year from two clock readings
  (\<^verbatim>\<open>datetime.now().month\<close>, then \<^verbatim>\<open>datetime.now().year\<close>): whenever the first
  reading is in December and the year has changed by the second, the keyboard is built for
  December of the new year, so of the new year's months only December is offered and
  January to November, the current month included, are skipped.\<close>

theorem month_keyboard_new_year:
  assumes "month now1 = 12" and "year now2 = year now1 + 1"
  shows "get_month_keyboard now1 now2 =
           ''ignore'' # map (\<lambda>(m, y). month_payload m y)
             [(12, year now2), (1, year now2 + 1), (2, year now2 + 1), (3, year now2 + 1),
              (4, year now2 + 1), (5, year now2 + 1)] @ [''hide_calendar''] \<and>
         (\<forall>mo. month_payload mo (year now2) \<in> set (get_month_keyboard now1 now2) \<longleftrightarrow> mo = 12)"
proof -
  have "month_options 12 (year now2) =
          [(12, year now2), (1, year now2 + 1), (2, year now2 + 1), (3, year now2 + 1),
           (4, year now2 + 1), (5, year now2 + 1)]"
    by (simp add: month_options_def seasons_def month_available_def)
  then show ?thesis
    using assms(1) by (auto simp: get_month_keyboard_def month_payload_inj month_payload_not_nav)
qed

theorem month_keyboard_new_year_witness:
  "get_month_keyboard
     \<lparr>year = 2025, month = 12, day = 31, hour = 23, minute = 59, second = 59, microsecond = 999999\<rparr>
     \<lparr>year = 2026, month = 1, day = 1, hour = 0, minute = 0, second = 0, microsecond = 0\<rparr> =
   ''ignore'' # map (\<lambda>(m, y). month_payload m y)
     [(12, 2026), (1, 2027), (2, 2027), (3, 2027), (4, 2027), (5, 2027)] @ [''hide_calendar''] \<and>
   month_payload 1 2026 \<notin> set (get_month_keyboard
     \<lparr>year = 2025, month = 12, day = 31, hour = 23, minute = 59, second = 59, microsecond = 999999\<rparr>
     \<lparr>year = 2026, month = 1, day = 1, hour = 0, minute = 0, second = 0, microsecond = 0\<rparr>)"
proof -
  let ?c1 = "\<lparr>year = 2025, month = 12, day = 31, hour = 23, minute = 59, second = 59, microsecond = 999999\<rparr>"
  let ?c2 = "\<lparr>year = 2026, month = 1, day = 1, hour = 0, minute = 0, second = 0, microsecond = 0\<rparr>"
  have "month ?c1 = 12" "year ?c2 = year ?c1 + 1" by simp_all
  note k = month_keyboard_new_year [OF this]
  have "month_payload 1 (year ?c2) \<notin> set (get_month_keyboard ?c1 ?c2)"
    using spec [OF conjunct2 [OF k], of 1] by (metis numeral_eq_one_iff semiring_norm(85))
  then show ?thesis using conjunct1 [OF k] by simp
qed

end
