(* ===== verification/TaskView.thy ===== *)
theory TaskView
  imports Strptime TaskStore
begin

text \<open>The task card of src/main.py: what \<^verbatim>\<open>process_view_task\<close> (lines 718--765) and the
  re-render of \<^verbatim>\<open>process_complete_task\<close> (lines 779--822) show for one task.  Both handlers
  hold their own copy of the remaining-time computation; each copy is a definition here, and
  the lemmas show that the copies agree on open tasks, that every number shown is in range,
  and that the card shows the remaining time truncated to the minute.  The card is the
  record of the fields the f-string prints; its emoji and HTML markup are not modelled.\<close>

section \<open>Remaining time\<close>

text \<open>The four texts \<^verbatim>\<open>time_status\<close> can take, with their numbers; \<open>NoTimeStatus\<close> is the
  empty string of the \<^verbatim>\<open>except ValueError\<close> branch and of a completed task.\<close>

datatype time_status =
    NoTimeStatus
  | DeadlinePassed
  | RemainingDays int int int
  | RemainingHours int int
  | RemainingMinutes int

text \<open>Lines 738--753 of \<^verbatim>\<open>process_view_task\<close>: \<^verbatim>\<open>divmod\<close> on the non-negative
  \<^verbatim>\<open>time_diff.seconds\<close> is \<open>div\<close> and \<open>mod\<close> of \<open>int\<close>.\<close>

definition remaining_status :: "timedelta \<Rightarrow> time_status" where
  "remaining_status time_diff =
     (if time_diff < 0 then DeadlinePassed
      else let days = td_days time_diff;
               hours = td_seconds time_diff div 3600;
               remainder = td_seconds time_diff mod 3600;
               minutes = remainder div 60
           in if 0 < days then RemainingDays days hours minutes
              else if 0 < hours then RemainingHours hours minutes
              else RemainingMinutes minutes)"

text \<open>Lines 728--755: \<^verbatim>\<open>deadline_text.split()\<close> on a \<^verbatim>\<open>None\<close> deadline raises
  \<^verbatim>\<open>AttributeError\<close>, which \<^verbatim>\<open>except ValueError\<close> does not catch; a string that
  \<^verbatim>\<open>strptime\<close> rejects gives the empty status.\<close>

definition view_time_status :: "datetime \<Rightarrow> string option \<Rightarrow> py_error + time_status" where
  "view_time_status now deadline_text =
     (case deadline_text of
        None \<Rightarrow> Inl AttributeError
      | Some s \<Rightarrow>
          (case (if length (py_split s) = 1 then py_strptime (s @ '' 23:59'') else py_strptime s) of
             None \<Rightarrow> Inr NoTimeStatus
           | Some dl \<Rightarrow> Inr (remaining_status (dt_sub dl now))))"

text \<open>Lines 783--812 of \<^verbatim>\<open>process_complete_task\<close>, the second copy: it is guarded by
  \<^verbatim>\<open>if not task["completed"]\<close>, so a completed task never reaches \<^verbatim>\<open>split()\<close>.\<close>

definition complete_time_status :: "datetime \<Rightarrow> task \<Rightarrow> py_error + time_status" where
  "complete_time_status now tk =
     (if \<not> completed tk then
        (case deadline tk of
           None \<Rightarrow> Inl AttributeError
         | Some s \<Rightarrow>
             (case (if length (py_split s) = 1 then py_strptime (s @ '' 23:59'') else py_strptime s) of
                None \<Rightarrow> Inr NoTimeStatus
              | Some dl \<Rightarrow>
                  (let time_diff = dt_sub dl now
                   in if time_diff < 0 then Inr DeadlinePassed
                      else let days = td_days time_diff;
                               hours = td_seconds time_diff div 3600;
                               remainder = td_seconds time_diff mod 3600;
                               minutes = remainder div 60
                           in if 0 < days then Inr (RemainingDays days hours minutes)
                              else if 0 < hours then Inr (RemainingHours hours minutes)
                              else Inr (RemainingMinutes minutes))))
      else Inr NoTimeStatus)"

section \<open>The card\<close>

record task_view =
  card_name :: "string option"
  card_completed :: bool
  card_deadline :: "string option"
  card_status :: time_status
  card_created :: string

text \<open>The fields of the \<^verbatim>\<open>edit_text\<close> f-string, lines 757--763 and 814--820.\<close>

definition task_card :: "task \<Rightarrow> time_status \<Rightarrow> task_view" where
  "task_card tk ts = \<lparr>card_name = name tk, card_completed = completed tk,
     card_deadline = deadline tk, card_status = ts, card_created = created_at tk\<rparr>"

text \<open>The whole minutes a status shows, days and hours included.\<close>

fun shown_minutes :: "time_status \<Rightarrow> int option" where
  "shown_minutes (RemainingDays d h m) = Some (d * 1440 + h * 60 + m)"
| "shown_minutes (RemainingHours h m) = Some (h * 60 + m)"
| "shown_minutes (RemainingMinutes m) = Some m"
| "shown_minutes _ = None"

section \<open>Lemmas\<close>

lemma view_time_status_parse:
  "view_time_status now (Some s) =
     (case parse_deadline s of None \<Rightarrow> Inr NoTimeStatus | Some t \<Rightarrow> Inr (remaining_status (dt_sub t now)))"
  by (simp add: view_time_status_def parse_deadline_def)

lemma remaining_split:
  fixes x :: int
  assumes "0 \<le> x"
  shows "x = td_days x * 86400000000 + (td_seconds x div 3600) * 3600000000
             + ((td_seconds x mod 3600) div 60) * 60000000 + (x mod 60000000)"
proof -
  define y where "y = x mod 86400000000"
  define q where "q = y div 1000000"
  have x: "x = td_days x * 86400000000 + y"
    unfolding td_days_def y_def by simp
  have ts: "td_seconds x = q"
    unfolding td_seconds_def q_def y_def ..
  have xm: "x mod 60000000 = y mod 60000000"
    unfolding y_def by (rule mod_mod_cancel [symmetric]) simp
  have ym: "y mod 60000000 = 1000000 * (q mod 60) + y mod 1000000"
    unfolding q_def using zmod_zmult2_eq [of 60 y 1000000] by simp
  have y: "y = q * 1000000 + y mod 1000000"
    unfolding q_def by simp
  have qs: "q = (q div 3600) * 3600 + ((q mod 3600) div 60) * 60 + q mod 60"
  proof -
    have "(q mod 3600) mod 60 = q mod 60" by (rule mod_mod_cancel) simp
    moreover have "q mod 3600 = (q mod 3600) div 60 * 60 + (q mod 3600) mod 60" by simp
    moreover have "q = q div 3600 * 3600 + q mod 3600" by simp
    ultimately show ?thesis by linarith
  qed
  show ?thesis unfolding ts xm ym using x y qs by linarith
qed

lemma remaining_status_cases:
  assumes "0 \<le> x"
  obtains (days) "remaining_status x = RemainingDays (td_days x) (td_seconds x div 3600) ((td_seconds x mod 3600) div 60)"
    "0 < td_days x"
  | (hours) "remaining_status x = RemainingHours (td_seconds x div 3600) ((td_seconds x mod 3600) div 60)"
    "td_days x = 0" "0 < td_seconds x div 3600"
  | (minutes) "remaining_status x = RemainingMinutes ((td_seconds x mod 3600) div 60)"
    "td_days x = 0" "td_seconds x div 3600 = 0"
proof -
  have "0 \<le> td_days x" "0 \<le> td_seconds x div 3600"
    using assms td_seconds_bounds [of x] by (auto simp: td_days_def)
  then show ?thesis using that assms by (force simp: remaining_status_def Let_def)
qed

lemma remaining_fields_bounded:
  "0 \<le> td_seconds x div 3600 \<and> td_seconds x div 3600 < 24 \<and>
   0 \<le> (td_seconds x mod 3600) div 60 \<and> (td_seconds x mod 3600) div 60 < 60"
  using td_seconds_bounds [of x] by auto

lemma remaining_truncated:
  assumes "0 \<le> x"
  shows "\<exists>k. shown_minutes (remaining_status x) = Some k \<and> k * 60000000 \<le> x \<and> x < (k + 1) * 60000000"
proof -
  define k where "k = td_days x * 1440 + (td_seconds x div 3600) * 60 + (td_seconds x mod 3600) div 60"
  have x: "x = k * 60000000 + x mod 60000000"
    using remaining_split [OF assms] unfolding k_def by simp
  have r: "0 \<le> x mod 60000000" "x mod 60000000 < 60000000" by simp_all
  have "shown_minutes (remaining_status x) = Some k"
    using assms unfolding k_def by (cases rule: remaining_status_cases) simp_all
  moreover have "k * 60000000 \<le> x \<and> x < (k + 1) * 60000000"
  proof -
    have "(k + 1) * 60000000 = k * 60000000 + 60000000" by (simp add: distrib_right)
    then show ?thesis using x r by linarith
  qed
  ultimately show ?thesis by blast
qed

text \<open>C28. The two copies of the remaining-time code agree: \<^verbatim>\<open>process_complete_task\<close>
  shows the status \<^verbatim>\<open>process_view_task\<close> shows for an open task, raises where it raises,
  and shows none, without touching the deadline, for a completed task.\<close>

theorem complete_status_eq_view:
  "complete_time_status now tk =
     (if completed tk then Inr NoTimeStatus else view_time_status now (deadline tk))"
  by (simp add: complete_time_status_def view_time_status_def remaining_status_def Let_def
      split: option.split)

text \<open>C29. Every number the task card shows is in range: days are positive in the days form,
  hours are in \<open>[0, 24)\<close> and positive in the hours form, minutes are in \<open>[0, 60)\<close>.\<close>

theorem view_status_bounds:
  assumes "view_time_status now dl = Inr ts"
  shows "(case ts of
            RemainingDays d h m \<Rightarrow> 0 < d \<and> 0 \<le> h \<and> h < 24 \<and> 0 \<le> m \<and> m < 60
          | RemainingHours h m \<Rightarrow> 0 < h \<and> h < 24 \<and> 0 \<le> m \<and> m < 60
          | RemainingMinutes m \<Rightarrow> 0 \<le> m \<and> m < 60
          | _ \<Rightarrow> True)"
proof -
  have r: "ts = NoTimeStatus \<or> (\<exists>x. ts = remaining_status x)"
    using assms by (auto simp: view_time_status_def split: option.splits if_splits)
  have "(case remaining_status x of
            RemainingDays d h m \<Rightarrow> 0 < d \<and> 0 \<le> h \<and> h < 24 \<and> 0 \<le> m \<and> m < 60
          | RemainingHours h m \<Rightarrow> 0 < h \<and> h < 24 \<and> 0 \<le> m \<and> m < 60
          | RemainingMinutes m \<Rightarrow> 0 \<le> m \<and> m < 60
          | _ \<Rightarrow> True)" for x
  proof (cases "0 \<le> x")
    case True
    then show ?thesis using remaining_fields_bounded [of x]
      by (cases rule: remaining_status_cases) simp_all
  qed (simp add: remaining_status_def)
  then show ?thesis using r by auto
qed

theorem view_status_bounds_witness:
  "view_time_status \<lparr>year = 2030, month = 1, day = 1, hour = 9, minute = 0, second = 0, microsecond = 0\<rparr>
     (Some ''02.01.2030 10:30'') = Inr (RemainingDays 1 1 30) \<and> (1::int) < 24 \<and> (30::int) < 60"
proof -
  have e: "view_time_status \<lparr>year = 2030, month = 1, day = 1, hour = 9, minute = 0, second = 0, microsecond = 0\<rparr>
     (Some ''02.01.2030 10:30'') = Inr (RemainingDays 1 1 30)"
    by (simp add: view_time_status_def remaining_status_def strptime_eval datetime_eval)
  show ?thesis using view_status_bounds [OF e] e by simp
qed

text \<open>C30. The card shows the remaining time truncated to the whole minute: for a deadline the
  code parses, it says the deadline passed exactly when it lies in the past, and otherwise
  the days, hours and minutes it shows add up to \<open>k\<close> minutes with
  \<open>k \<le> remaining < k + 1\<close>.\<close>

theorem view_remaining_truncated:
  assumes "parse_deadline s = Some t"
  shows "view_time_status now (Some s) = Inr DeadlinePassed \<and> dt_sub t now < 0 \<or>
         (\<exists>ts k. view_time_status now (Some s) = Inr ts \<and> shown_minutes ts = Some k \<and>
            k * 60000000 \<le> dt_sub t now \<and> dt_sub t now < (k + 1) * 60000000)"
proof (cases "dt_sub t now < 0")
  case True
  then show ?thesis using assms by (simp add: view_time_status_parse remaining_status_def)
next
  case False
  then show ?thesis using assms remaining_truncated [of "dt_sub t now"]
    by (simp add: view_time_status_parse)
qed

theorem view_remaining_truncated_witness:
  "parse_deadline ''01.01.2030 09:45'' =
     Some \<lparr>year = 2030, month = 1, day = 1, hour = 9, minute = 45, second = 0, microsecond = 0\<rparr> \<and>
   view_time_status \<lparr>year = 2030, month = 1, day = 1, hour = 9, minute = 0, second = 30, microsecond = 0\<rparr>
     (Some ''01.01.2030 09:45'') = Inr (RemainingMinutes 44)"
proof -
  have p: "parse_deadline ''01.01.2030 09:45'' =
     Some \<lparr>year = 2030, month = 1, day = 1, hour = 9, minute = 45, second = 0, microsecond = 0\<rparr>"
    by (simp add: strptime_eval)
  have "\<exists>ts k. view_time_status \<lparr>year = 2030, month = 1, day = 1, hour = 9, minute = 0, second = 30, microsecond = 0\<rparr>
     (Some ''01.01.2030 09:45'') = Inr ts \<and> shown_minutes ts = Some k \<and> k = 44"
    using view_remaining_truncated [OF p, of "\<lparr>year = 2030, month = 1, day = 1, hour = 9, minute = 0, second = 30, microsecond = 0\<rparr>"]
    by (auto simp: datetime_eval)
  then show ?thesis using p by (auto simp: view_time_status_parse remaining_status_def datetime_eval)
qed

end
