(* ===== verification/Dialog.thy ===== *)
theory Dialog
  imports Calendar TaskView
begin

text \<open>The conversation handlers of src/main.py as one step function on the bot's state: the
  task store \<^verbatim>\<open>tasks\<close> and, per user, the FSM context of aiogram's \<^verbatim>\<open>MemoryStorage\<close>
  (a state of \<^verbatim>\<open>TaskStates\<close> and a data dict).  An event is a text message or a callback
  query; it is routed the way aiogram's dispatcher routes it, to the first registered handler
  whose filters accept it, and the handler's effects on the store and the context are applied
  in the order of the code.  A handler that raises leaves the effects made before the raise in
  place; the dispatcher logs the exception and goes on with the next event.  Replies, edited
  messages and keyboards are output only and are not modelled.\<close>

section \<open>FSM context\<close>

datatype task_state =
    WaitingForTaskName
  | WaitingForDateSelection
  | WaitingForTimeSelection
  | WaitingForEditName
  | WaitingForEditDeadline

text \<open>The keys the handlers store with \<^verbatim>\<open>state.update_data\<close>; \<open>None\<close> is an absent key.\<close>

record fsm_data =
  task_name :: "string option"
  selected_month :: "nat option"
  selected_year :: "nat option"
  selected_day :: "nat option"
  data_date_str :: "string option"
  selected_hour :: "string option"
  edit_task_id :: "string option"
  is_editing :: "bool option"

record session =
  fsm_state :: "task_state option"
  fsm_data :: fsm_data

definition empty_data :: fsm_data where
  "empty_data = \<lparr>task_name = None, selected_month = None, selected_year = None,
     selected_day = None, data_date_str = None, selected_hour = None, edit_task_id = None,
     is_editing = None\<rparr>"

text \<open>A user the storage has not seen has no state and no data; \<^verbatim>\<open>state.clear()\<close> returns
  the context to that.\<close>

definition empty_session :: session where
  "empty_session = \<lparr>fsm_state = None, fsm_data = empty_data\<rparr>"

record bot =
  tasks :: store
  sessions :: "int \<Rightarrow> session"

definition init_bot :: bot where
  "init_bot = \<lparr>tasks = [], sessions = (\<lambda>_. empty_session)\<rparr>"

type_synonym hresult = "py_error option \<times> session \<times> store"

section \<open>Events and routing\<close>

text \<open>The three buttons of the reply keyboard (\<^verbatim>\<open>get_main_keyboard\<close>) send their labels as
  text; the labels contain emoji, outside the code points a \<open>string\<close> holds, so they are
  inputs of their own.\<close>

datatype message_text = Text string | MyTasksButton | AddTaskButton | HelpButton

datatype event = Message int message_text | CallbackQuery int string

text \<open>aiogram's \<^verbatim>\<open>Command(name)\<close> filter: the first word of the text is \<^verbatim>\<open>/name\<close>,
  optionally followed by \<^verbatim>\<open>@\<close> and a mention that must be the bot's user name \<open>me\<close>
  (compared without case; user names are ASCII).\<close>

definition ascii_lower :: "char \<Rightarrow> char" where
  "ascii_lower c = (let n = (of_char c :: nat) in if 65 \<le> n \<and> n \<le> 90 then char_of (n + 32) else c)"

definition is_command :: "string \<Rightarrow> string \<Rightarrow> message_text \<Rightarrow> bool" where
  "is_command me cmd t =
     (case t of
        Text s \<Rightarrow>
          (case py_split s of
             [] \<Rightarrow> False
           | w # _ \<Rightarrow>
               (case w of
                  [] \<Rightarrow> False
                | c # rest \<Rightarrow>
                    (let command = takeWhile (\<lambda>x. x \<noteq> CHR ''@'') rest;
                         mention = drop (Suc (length command)) rest
                     in c = CHR ''/'' \<and> command = cmd \<and>
                        (mention = [] \<or> map ascii_lower mention = map ascii_lower me))))
      | _ \<Rightarrow> False)"

text \<open>The callback handlers in the order they are registered, each with its
  \<^verbatim>\<open>F.data\<close> filter.\<close>

datatype cb_handler =
    H_month_selection | H_back_to_month | H_day_selection | H_back_to_day | H_hour_selection
  | H_exact_time | H_list_tasks | H_add_task_button | H_view_task | H_complete_task
  | H_delete_task | H_edit_task | H_edit_name | H_edit_deadline | H_hide_calendar
  | H_time_all_day | H_custom_minute | H_back_to_time | H_ignore_button

definition callback_routes :: "(cb_handler \<times> (string \<Rightarrow> bool)) list" where
  "callback_routes =
     [(H_month_selection, prefix ''month_''), (H_back_to_month, (=) ''back_to_month''),
      (H_day_selection, prefix ''day_''), (H_back_to_day, (=) ''back_to_day''),
      (H_hour_selection, prefix ''hour_''), (H_exact_time, prefix ''fulltime_''),
      (H_list_tasks, (=) ''list_tasks''), (H_add_task_button, (=) ''add_task''),
      (H_view_task, prefix ''view_''), (H_complete_task, prefix ''complete_''),
      (H_delete_task, prefix ''delete_''), (H_edit_task, prefix ''edit_''),
      (H_edit_name, prefix ''edit_name_''), (H_edit_deadline, prefix ''edit_deadline_''),
      (H_hide_calendar, (=) ''hide_calendar''), (H_time_all_day, (=) ''time_all_day''),
      (H_custom_minute, (=) ''custom_minute''), (H_back_to_time, (=) ''back_to_time''),
      (H_ignore_button, (=) ''ignore'')]"

definition dispatch_callback :: "string \<Rightarrow> cb_handler option" where
  "dispatch_callback d = map_option fst (find (\<lambda>(h, f). f d) callback_routes)"

section \<open>FSM context operations\<close>

text \<open>\<^verbatim>\<open>state.update_data(...)\<close> and \<^verbatim>\<open>state.set_state(...)\<close>.\<close>

definition update_data :: "(fsm_data \<Rightarrow> fsm_data) \<Rightarrow> session \<Rightarrow> session" where
  "update_data f s = s\<lparr>fsm_data := f (fsm_data s)\<rparr>"

definition set_state :: "task_state \<Rightarrow> session \<Rightarrow> session" where
  "set_state q s = s\<lparr>fsm_state := Some q\<rparr>"

text \<open>The exception a handler's result carries, if any, for the dispatcher to log.\<close>

definition py_err :: "py_error + 'a \<Rightarrow> py_error option" where
  "py_err r = (case r of Inl e \<Rightarrow> Some e | Inr _ \<Rightarrow> None)"

text \<open>\<^verbatim>\<open>xs[i]\<close> on a list.\<close>

definition py_index :: "'a list \<Rightarrow> nat \<Rightarrow> py_error + 'a" where
  "py_index xs i = (if i < length xs then Inr (xs ! i) else Inl IndexError)"

text \<open>An f-string field holding a value that may be \<^verbatim>\<open>None\<close>.\<close>

definition fmt_opt :: "string option \<Rightarrow> string" where
  "fmt_opt v = (case v of None \<Rightarrow> ''None'' | Some x \<Rightarrow> x)"

text \<open>\<^verbatim>\<open>if user_id not in tasks: tasks[user_id] = {}\<close>.\<close>

definition ensure_user :: "int \<Rightarrow> store \<Rightarrow> store" where
  "ensure_user u st = (if map_of st u = None then AList.update u [] st else st)"

section \<open>Message handlers\<close>

definition cmd_add :: "session \<Rightarrow> session" where
  "cmd_add s = set_state WaitingForTaskName s"

definition process_task_name :: "string \<Rightarrow> session \<Rightarrow> session" where
  "process_task_name txt s =
     set_state WaitingForDateSelection (update_data (\<lambda>d. d\<lparr>task_name := Some (py_strip txt)\<rparr>) s)"

text \<open>\<^verbatim>\<open>user_data["edit_task_id"]\<close> raises \<^verbatim>\<open>KeyError\<close> when the key is absent; the state
  is cleared only when the task exists.\<close>

definition process_edit_name_input :: "int \<Rightarrow> string \<Rightarrow> session \<Rightarrow> store \<Rightarrow> hresult" where
  "process_edit_name_input u txt s st =
     (case edit_task_id (fsm_data s) of
        None \<Rightarrow> (Some KeyError, s, st)
      | Some t \<Rightarrow> (case rename_task u t (py_strip txt) st of
                     None \<Rightarrow> (None, s, st)
                   | Some st' \<Rightarrow> (None, empty_session, st')))"

text \<open>The message handlers in the order they are registered: the four commands (with their
  reply-keyboard buttons) in any state, then the two handlers filtered by state.\<close>

definition handle_message :: "string \<Rightarrow> int \<Rightarrow> message_text \<Rightarrow> session \<Rightarrow> store \<Rightarrow> hresult" where
  "handle_message me u t s st =
     (if is_command me ''start'' t then (None, s, st)
      else if is_command me ''help'' t \<or> t = HelpButton then (None, s, st)
      else if is_command me ''tasks'' t \<or> t = MyTasksButton then (None, s, st)
      else if is_command me ''add'' t \<or> t = AddTaskButton then (None, cmd_add s, st)
      else (case t of
              Text txt \<Rightarrow>
                (if fsm_state s = Some WaitingForTaskName then (None, process_task_name txt s, st)
                 else if fsm_state s = Some WaitingForEditName then process_edit_name_input u txt s st
                 else (None, s, st))
            | _ \<Rightarrow> (None, s, st)))"

section \<open>Callback handlers\<close>

text \<open>\<^verbatim>\<open>process_month_selection\<close>: unpack \<^verbatim>\<open>month_{m}_{y}\<close>, store the month and the
  year, then look the month's name up (\<^verbatim>\<open>months[month - 1]\<close>, out of range above 12) and
  build the day keyboard.\<close>

definition process_month_selection :: "datetime \<Rightarrow> string \<Rightarrow> session \<Rightarrow> py_error option \<times> session" where
  "process_month_selection now d s =
     (case py_split_sep CHR ''_'' d of
        [_, ms, ys] \<Rightarrow>
          (case py_int ms of
             Inl e \<Rightarrow> (Some e, s)
           | Inr m \<Rightarrow>
               (case py_int ys of
                  Inl e \<Rightarrow> (Some e, s)
                | Inr y \<Rightarrow>
                    (let s1 = update_data (\<lambda>x. x\<lparr>selected_month := Some m, selected_year := Some y\<rparr>) s
                     in if 12 < m then (Some IndexError, s1)
                        else (case get_day_keyboard now m y of
                                Inl e \<Rightarrow> (Some e, s1)
                              | Inr _ \<Rightarrow> (None, s1)))))
      | _ \<Rightarrow> (Some ValueError, s))"

text \<open>\<^verbatim>\<open>process_day_selection\<close>: unpack \<^verbatim>\<open>day_{d}_{m}_{y}\<close>, store the day, look the
  month's name up, store \<^verbatim>\<open>date_str\<close>.  The hour keyboard it builds raises nothing.\<close>

definition process_day_selection :: "string \<Rightarrow> session \<Rightarrow> py_error option \<times> session" where
  "process_day_selection d s =
     (case py_split_sep CHR ''_'' d of
        [_, ds, ms, ys] \<Rightarrow>
          (case (py_int ds, py_int ms, py_int ys) of
             (Inr dd, Inr m, Inr y) \<Rightarrow>
               (let s1 = update_data (\<lambda>x. x\<lparr>selected_day := Some dd\<rparr>) s
                in if 12 < m then (Some IndexError, s1)
                   else (None, update_data (\<lambda>x. x\<lparr>data_date_str := Some (date_str dd m y)\<rparr>) s1))
           | _ \<Rightarrow> (Some ValueError, s))
      | _ \<Rightarrow> (Some ValueError, s))"

text \<open>\<^verbatim>\<open>process_back_to_day\<close>: \<^verbatim>\<open>if month and year\<close> rebuilds the day keyboard, which
  raises for an invalid stored month; otherwise the month keyboard.\<close>

definition process_back_to_day :: "datetime \<Rightarrow> session \<Rightarrow> py_error option" where
  "process_back_to_day now s =
     (case (selected_month (fsm_data s), selected_year (fsm_data s)) of
        (Some m, Some y) \<Rightarrow>
          (if m \<noteq> 0 \<and> y \<noteq> 0 then (case get_day_keyboard now m y of Inl e \<Rightarrow> Some e | Inr _ \<Rightarrow> None)
           else None)
      | _ \<Rightarrow> None)"

text \<open>\<^verbatim>\<open>process_hour_selection\<close>: store the hour field, then \<^verbatim>\<open>int(...)\<close> of the stored
  day, month and year (\<^verbatim>\<open>int(None)\<close> raises \<^verbatim>\<open>TypeError\<close>) and of the hour.\<close>

definition process_hour_selection :: "string \<Rightarrow> session \<Rightarrow> py_error option \<times> session" where
  "process_hour_selection d s =
     (case py_index (py_split_sep CHR ''_'' d) 1 of
        Inl e \<Rightarrow> (Some e, s)
      | Inr h \<Rightarrow>
          (let s1 = update_data (\<lambda>x. x\<lparr>selected_hour := Some h\<rparr>) s
           in if selected_day (fsm_data s1) = None \<or> selected_month (fsm_data s1) = None \<or>
                 selected_year (fsm_data s1) = None then (Some TypeError, s1)
              else (case py_int h of Inl e \<Rightarrow> (Some e, s1) | Inr _ \<Rightarrow> (None, s1))))"

text \<open>\<^verbatim>\<open>process_exact_time\<close>: the deadline \<^verbatim>\<open>f"{date_str} {time_str}"\<close>; when editing,
  the unguarded assignment to the edited task (lines 660--663), otherwise a new task (lines
  671--683); then \<^verbatim>\<open>state.clear()\<close>.\<close>

definition process_exact_time :: "datetime \<Rightarrow> int \<Rightarrow> string \<Rightarrow> session \<Rightarrow> store \<Rightarrow> hresult" where
  "process_exact_time now u d s st =
     (case py_index (py_split_sep CHR ''_'' d) 1 of
        Inl e \<Rightarrow> (Some e, s, st)
      | Inr time \<Rightarrow>
          (let dl = fmt_opt (data_date_str (fsm_data s)) @ '' '' @ time
           in if is_editing (fsm_data s) = Some True
              then (case set_deadline u (edit_task_id (fsm_data s)) (Some dl) st of
                      Inl e \<Rightarrow> (Some e, s, st)
                    | Inr st' \<Rightarrow> (None, empty_session, st'))
              else (None, empty_session,
                    snd (add_task u (task_name (fsm_data s)) (Some dl) (strftime_minute now) st))))"

text \<open>\<^verbatim>\<open>process_view_task\<close>: the card of the task, or the exception of its
  remaining-time code (\<open>view_time_status\<close>); an unknown task shows nothing.\<close>

definition process_view_task :: "datetime \<Rightarrow> int \<Rightarrow> string \<Rightarrow> store \<Rightarrow> py_error + task_view option" where
  "process_view_task now u d st =
     (case py_index (py_split_sep CHR ''_'' d) 1 of
        Inl e \<Rightarrow> Inl e
      | Inr t \<Rightarrow>
          (case find_task st u t of
             None \<Rightarrow> Inr None
           | Some tk \<Rightarrow>
               (case view_time_status now (deadline tk) of
                  Inl e \<Rightarrow> Inl e
                | Inr ts \<Rightarrow> Inr (Some (task_card tk ts)))))"

text \<open>\<^verbatim>\<open>process_complete_task\<close>: toggle, then re-render the toggled task with the
  second copy of the remaining-time code (\<open>complete_time_status\<close>).\<close>

definition process_complete_task ::
  "datetime \<Rightarrow> int \<Rightarrow> string \<Rightarrow> store \<Rightarrow> (py_error + task_view option) \<times> store" where
  "process_complete_task now u d st =
     (case py_index (py_split_sep CHR ''_'' d) 1 of
        Inl e \<Rightarrow> (Inl e, st)
      | Inr t \<Rightarrow>
          (case toggle_task u t st of
             None \<Rightarrow> (Inr None, st)
           | Some st' \<Rightarrow>
               (case find_task st' u t of
                  None \<Rightarrow> (Inr None, st')
                | Some tk \<Rightarrow>
                    (case complete_time_status now tk of
                       Inl e \<Rightarrow> (Inl e, st')
                     | Inr ts \<Rightarrow> (Inr (Some (task_card tk ts)), st')))))"

definition process_delete_task :: "int \<Rightarrow> string \<Rightarrow> store \<Rightarrow> py_error option \<times> store" where
  "process_delete_task u d st =
     (case py_index (py_split_sep CHR ''_'' d) 1 of
        Inl e \<Rightarrow> (Some e, st)
      | Inr t \<Rightarrow> (case delete_task u t st of None \<Rightarrow> (None, st) | Some st' \<Rightarrow> (None, st')))"

definition process_edit_name :: "string \<Rightarrow> session \<Rightarrow> py_error option \<times> session" where
  "process_edit_name d s =
     (case py_index (py_split_sep CHR ''_'' d) 2 of
        Inl e \<Rightarrow> (Some e, s)
      | Inr t \<Rightarrow> (None, set_state WaitingForEditName (update_data (\<lambda>x. x\<lparr>edit_task_id := Some t\<rparr>) s)))"

definition process_edit_deadline :: "string \<Rightarrow> session \<Rightarrow> py_error option \<times> session" where
  "process_edit_deadline d s =
     (case py_index (py_split_sep CHR ''_'' d) 2 of
        Inl e \<Rightarrow> (Some e, s)
      | Inr t \<Rightarrow> (None, set_state WaitingForDateSelection
                   (update_data (\<lambda>x. x\<lparr>is_editing := Some True\<rparr>)
                     (update_data (\<lambda>x. x\<lparr>edit_task_id := Some t\<rparr>) s))))"

text \<open>\<^verbatim>\<open>process_time_all_day\<close>: the deadline is the stored \<^verbatim>\<open>date_str\<close> itself, which is
  \<^verbatim>\<open>None\<close> when the context has none; the user's dict is created before the branch.\<close>

definition process_time_all_day :: "datetime \<Rightarrow> int \<Rightarrow> session \<Rightarrow> store \<Rightarrow> hresult" where
  "process_time_all_day now u s st =
     (let dl = data_date_str (fsm_data s); st1 = ensure_user u st
      in if is_editing (fsm_data s) = Some True
         then (case set_deadline u (edit_task_id (fsm_data s)) dl st1 of
                 Inl e \<Rightarrow> (Some e, s, st1)
               | Inr st' \<Rightarrow> (None, empty_session, st'))
         else (None, empty_session, snd (add_task u (task_name (fsm_data s)) dl (strftime_minute now) st1)))"

text \<open>\<^verbatim>\<open>process_back_to_time\<close>: \<^verbatim>\<open>int(...)\<close> of the stored day, month and year
  (\<^verbatim>\<open>TypeError\<close> when one is missing), then the assignment
  \<^verbatim>\<open>callback.data = callback_data\<close> (line 990).  aiogram 3's \<^verbatim>\<open>CallbackQuery\<close> is a
  frozen pydantic model, so the assignment raises pydantic's \<^verbatim>\<open>ValidationError\<close>, a
  subclass of \<^verbatim>\<open>ValueError\<close>, and \<^verbatim>\<open>process_day_selection\<close> is never reached.\<close>

definition process_back_to_time :: "session \<Rightarrow> py_error option \<times> session" where
  "process_back_to_time s =
     (case (selected_day (fsm_data s), selected_month (fsm_data s), selected_year (fsm_data s)) of
        (Some dd, Some m, Some y) \<Rightarrow> (Some ValueError, s)
      | _ \<Rightarrow> (Some TypeError, s))"

text \<open>The handler of each route.  \<^verbatim>\<open>process_custom_minute\<close> calls
  \<^verbatim>\<open>process_back_to_time(callback)\<close> without its \<^verbatim>\<open>state\<close> argument, a \<^verbatim>\<open>TypeError\<close>.\<close>

definition run_callback ::
  "datetime \<Rightarrow> int \<Rightarrow> string \<Rightarrow> cb_handler \<Rightarrow> session \<Rightarrow> store \<Rightarrow> hresult" where
  "run_callback now u d h s st =
     (case h of
        H_month_selection \<Rightarrow> (let (e, s') = process_month_selection now d s in (e, s', st))
      | H_back_to_month \<Rightarrow> (None, s, st)
      | H_day_selection \<Rightarrow> (let (e, s') = process_day_selection d s in (e, s', st))
      | H_back_to_day \<Rightarrow> (process_back_to_day now s, s, st)
      | H_hour_selection \<Rightarrow> (let (e, s') = process_hour_selection d s in (e, s', st))
      | H_exact_time \<Rightarrow> process_exact_time now u d s st
      | H_list_tasks \<Rightarrow> (None, s, st)
      | H_add_task_button \<Rightarrow> (None, set_state WaitingForTaskName s, st)
      | H_view_task \<Rightarrow> (py_err (process_view_task now u d st), s, st)
      | H_complete_task \<Rightarrow> (let (r, st') = process_complete_task now u d st in (py_err r, s, st'))
      | H_delete_task \<Rightarrow> (let (e, st') = process_delete_task u d st in (e, s, st'))
      | H_edit_task \<Rightarrow> (None, s, st)
      | H_edit_name \<Rightarrow> (let (e, s') = process_edit_name d s in (e, s', st))
      | H_edit_deadline \<Rightarrow> (let (e, s') = process_edit_deadline d s in (e, s', st))
      | H_hide_calendar \<Rightarrow> (None, s, st)
      | H_time_all_day \<Rightarrow> process_time_all_day now u s st
      | H_custom_minute \<Rightarrow> (Some TypeError, s, st)
      | H_back_to_time \<Rightarrow> (let (e, s') = process_back_to_time s in (e, s', st))
      | H_ignore_button \<Rightarrow> (None, s, st))"

section \<open>The step function\<close>

definition step :: "string \<Rightarrow> datetime \<Rightarrow> event \<Rightarrow> bot \<Rightarrow> py_error option \<times> bot" where
  "step me now ev b =
     (let (u, r) = (case ev of
                      Message u t \<Rightarrow> (u, handle_message me u t (sessions b u) (tasks b))
                    | CallbackQuery u d \<Rightarrow>
                        (u, case dispatch_callback d of
                              None \<Rightarrow> (None, sessions b u, tasks b)
                            | Some h \<Rightarrow> run_callback now u d h (sessions b u) (tasks b)))
      in case r of (e, s', st') \<Rightarrow> (e, \<lparr>tasks = st', sessions = (sessions b)(u := s')\<rparr>))"

text \<open>A sequence of events, each with the clock reading its handler sees.\<close>

fun run :: "string \<Rightarrow> (datetime \<times> event) list \<Rightarrow> bot \<Rightarrow> py_error option list \<times> bot" where
  "run me [] b = ([], b)"
| "run me ((now, ev) # evs) b =
     (let (e, b1) = step me now ev b; (es, b2) = run me evs b1 in (e # es, b2))"

text \<open>The states the bot reaches from its start by any events at any clock readings.\<close>

inductive reachable :: "bot \<Rightarrow> bool" where
  init: "reachable init_bot"
| step: "reachable b \<Longrightarrow> reachable (snd (step me now ev b))"

section \<open>The task list\<close>

text \<open>The buttons of \<^verbatim>\<open>get_task_keyboard(user_id)\<close> without a task id, shown by
  \<^verbatim>\<open>/tasks\<close>, \<^verbatim>\<open>list_tasks\<close> and after a task is created or deleted: one button per
  task in dict order, whose label shows the status (\<open>True\<close> for completed), the name and
  the deadline, and whose payload is \<^verbatim>\<open>view_{task_id}\<close>; then \<^verbatim>\<open>add_task\<close>.\<close>

definition task_listing :: "store \<Rightarrow> int \<Rightarrow> ((bool \<times> string option \<times> string option) \<times> string) list" where
  "task_listing st u =
     map (\<lambda>(t, tk). ((completed tk, name tk, deadline tk), ''view_'' @ t)) (user_tasks st u)
     @ [((False, None, None), ''add_task'')]"

text \<open>Lines 42--48: the payloads of the buttons under a task card, in order (Completed, Edit,
  Delete, Back).\<close>

definition task_buttons :: "string \<Rightarrow> string list" where
  "task_buttons t = [''complete_'' @ t, ''edit_'' @ t, ''delete_'' @ t, ''list_tasks'']"

text \<open>\<^verbatim>\<open>get_main_keyboard\<close> (lines 65--74): the reply keyboard's rows; each button sends
  its text as a message.\<close>

definition main_keyboard :: "message_text list list" where
  "main_keyboard = [[MyTasksButton, AddTaskButton], [HelpButton]]"

section \<open>Invariants and examples\<close>

text \<open>A context that is not in (or heading into) the edit flows: no edit state, no
  \<^verbatim>\<open>is_editing\<close> flag, no \<^verbatim>\<open>edit_task_id\<close>, and not the state
  \<^verbatim>\<open>waiting_for_time_selection\<close>, which no handler sets.\<close>

definition no_edit_session :: "session \<Rightarrow> bool" where
  "no_edit_session s \<longleftrightarrow>
     fsm_state s \<notin> {Some WaitingForTimeSelection, Some WaitingForEditName, Some WaitingForEditDeadline} \<and>
     is_editing (fsm_data s) = None \<and> edit_task_id (fsm_data s) = None"

text \<open>A context after the name \<^verbatim>\<open>Report\<close> and the day 01.01.2030 were picked.\<close>

text \<open>The fields of the data dict that the handlers keep consistent: in the date selection
  state a task name is present, month and year are present together, and a stored
  \<^verbatim>\<open>date_str\<close> comes with a stored day.\<close>

definition typed_session :: "session \<Rightarrow> bool" where
  "typed_session s \<longleftrightarrow>
     (case fsm_state s of Some WaitingForDateSelection \<Rightarrow> task_name (fsm_data s) \<noteq> None | _ \<Rightarrow> True) \<and>
     (selected_month (fsm_data s) = None) = (selected_year (fsm_data s) = None) \<and>
     (case data_date_str (fsm_data s) of None \<Rightarrow> True | Some _ \<Rightarrow> selected_day (fsm_data s) \<noteq> None)"

definition picked_bot :: bot where
  "picked_bot = init_bot\<lparr>sessions := (\<lambda>_. empty_session)(5 :=
     \<lparr>fsm_state = Some WaitingForDateSelection,
      fsm_data = empty_data\<lparr>task_name := Some ''Report'', selected_month := Some 1,
        selected_year := Some 2030, selected_day := Some 1,
        data_date_str := Some (date_str 1 1 2030)\<rparr>\<rparr>)\<rparr>"

section \<open>Routing, context and handler lemmas\<close>

lemma prefix_edit_name: "prefix ''edit_name_'' d \<Longrightarrow> prefix ''edit_'' d"
  by (erule prefix_order.trans[rotated]) simp

lemma prefix_edit_deadline: "prefix ''edit_deadline_'' d \<Longrightarrow> prefix ''edit_'' d"
  by (erule prefix_order.trans[rotated]) simp

lemma dispatch_edit_unreachable:
  "dispatch_callback d \<noteq> Some H_edit_name \<and> dispatch_callback d \<noteq> Some H_edit_deadline"
  by (auto simp: dispatch_callback_def callback_routes_def dest: prefix_edit_name prefix_edit_deadline
      split: if_splits)

lemma dispatch_hide: "dispatch_callback ''hide_calendar'' = Some H_hide_calendar"
  by (simp add: dispatch_callback_def callback_routes_def)

lemma no_edit_empty [simp]: "no_edit_session empty_session"
  by (simp add: no_edit_session_def empty_session_def empty_data_def)

lemma no_edit_update_data [simp]:
  "edit_task_id (f (fsm_data s)) = edit_task_id (fsm_data s) \<Longrightarrow>
   is_editing (f (fsm_data s)) = is_editing (fsm_data s) \<Longrightarrow>
   no_edit_session (update_data f s) = no_edit_session s"
  by (simp add: no_edit_session_def update_data_def)

lemma no_edit_set_state [simp]:
  "no_edit_session s \<Longrightarrow> q \<in> {WaitingForTaskName, WaitingForDateSelection} \<Longrightarrow>
   no_edit_session (set_state q s)"
  by (auto simp: no_edit_session_def set_state_def)

lemma no_edit_month: "no_edit_session s \<Longrightarrow> no_edit_session (snd (process_month_selection now d s))"
  by (auto simp: process_month_selection_def Let_def split: list.splits sum.splits)

lemma no_edit_day: "no_edit_session s \<Longrightarrow> no_edit_session (snd (process_day_selection d s))"
  by (auto simp: process_day_selection_def Let_def split: list.splits sum.splits)

lemma no_edit_hour: "no_edit_session s \<Longrightarrow> no_edit_session (snd (process_hour_selection d s))"
  by (auto simp: process_hour_selection_def Let_def split: sum.splits)

lemma no_edit_back_to_time: "no_edit_session s \<Longrightarrow> no_edit_session (snd (process_back_to_time s))"
  by (simp add: process_back_to_time_def split: option.splits)

lemma no_edit_exact_time:
  "no_edit_session s \<Longrightarrow> no_edit_session (fst (snd (process_exact_time now u d s st)))"
  by (auto simp: process_exact_time_def Let_def split: sum.splits)

lemma no_edit_all_day:
  "no_edit_session s \<Longrightarrow> no_edit_session (fst (snd (process_time_all_day now u s st)))"
  by (auto simp: process_time_all_day_def Let_def split: sum.splits)

lemma no_edit_run_callback:
  assumes "no_edit_session s" and "h \<noteq> H_edit_name" and "h \<noteq> H_edit_deadline"
  shows "no_edit_session (fst (snd (run_callback now u d h s st)))"
  using assms
  by (cases h) (simp_all add: run_callback_def case_prod_beta no_edit_month no_edit_day no_edit_hour
      no_edit_back_to_time no_edit_exact_time no_edit_all_day)

lemma no_edit_edit_name_input:
  "no_edit_session s \<Longrightarrow> no_edit_session (fst (snd (process_edit_name_input u txt s st)))"
  by (auto simp: process_edit_name_input_def split: option.splits)

lemma no_edit_handle_message:
  "no_edit_session s \<Longrightarrow> no_edit_session (fst (snd (handle_message me u t s st)))"
  by (auto simp: handle_message_def cmd_add_def process_task_name_def no_edit_edit_name_input
      split: message_text.splits)

lemma typed_empty [simp]: "typed_session empty_session"
  by (simp add: typed_session_def empty_session_def empty_data_def)

lemma typed_set_state:
  "typed_session s \<Longrightarrow> q \<noteq> WaitingForDateSelection \<Longrightarrow> typed_session (set_state q s)"
  by (cases q) (auto simp: typed_session_def set_state_def split: option.splits)

lemma typed_fields:
  "typed_session s \<Longrightarrow>
     (selected_month (fsm_data s) = None \<longleftrightarrow> selected_year (fsm_data s) = None) \<and>
     (\<forall>ds. data_date_str (fsm_data s) = Some ds \<longrightarrow> (\<exists>dd. selected_day (fsm_data s) = Some dd))"
  by (auto simp: typed_session_def)

lemma typed_update_data:
  assumes "typed_session s"
    and "task_name (f (fsm_data s)) = task_name (fsm_data s)"
    and "selected_month (f (fsm_data s)) = None \<longleftrightarrow> selected_year (f (fsm_data s)) = None"
    and "data_date_str (f (fsm_data s)) \<noteq> None \<Longrightarrow> selected_day (f (fsm_data s)) \<noteq> None"
  shows "typed_session (update_data f s)"
  using assms unfolding typed_session_def update_data_def
  by (auto split: option.splits task_state.splits)

lemma typed_month:
  assumes "typed_session s"
  shows "typed_session (snd (process_month_selection now d s))"
proof -
  have "snd (process_month_selection now d s) = s \<or>
        (\<exists>m y. snd (process_month_selection now d s) =
           update_data (\<lambda>x. x\<lparr>selected_month := Some m, selected_year := Some y\<rparr>) s)"
    by (auto simp: process_month_selection_def Let_def split: list.splits sum.splits)
  then show ?thesis using assms typed_fields [OF assms] by (auto intro!: typed_update_data)
qed

lemma typed_day:
  assumes "typed_session s"
  shows "typed_session (snd (process_day_selection d s))"
proof -
  have "snd (process_day_selection d s) = s \<or>
        (\<exists>dd. snd (process_day_selection d s) = update_data (\<lambda>x. x\<lparr>selected_day := Some dd\<rparr>) s) \<or>
        (\<exists>dd ds. snd (process_day_selection d s) =
           update_data (\<lambda>x. x\<lparr>data_date_str := Some ds\<rparr>) (update_data (\<lambda>x. x\<lparr>selected_day := Some dd\<rparr>) s))"
    by (auto simp: process_day_selection_def Let_def split: list.splits sum.splits)
  moreover have inner: "typed_session (update_data (\<lambda>x. x\<lparr>selected_day := Some dd\<rparr>) s)" for dd
    using assms typed_fields [OF assms] by (auto intro!: typed_update_data)
  moreover have "typed_session (update_data (\<lambda>x. x\<lparr>data_date_str := Some ds\<rparr>)
                   (update_data (\<lambda>x. x\<lparr>selected_day := Some dd\<rparr>) s))" for dd ds
    using typed_fields [OF inner [of dd]]
    by (intro typed_update_data [OF inner]) (simp_all add: update_data_def)
  ultimately show ?thesis using assms by auto
qed

lemma typed_hour:
  assumes "typed_session s"
  shows "typed_session (snd (process_hour_selection d s))"
proof -
  have "snd (process_hour_selection d s) = s \<or>
        (\<exists>h. snd (process_hour_selection d s) = update_data (\<lambda>x. x\<lparr>selected_hour := Some h\<rparr>) s)"
    by (auto simp: process_hour_selection_def Let_def split: sum.splits)
  then show ?thesis using assms typed_fields [OF assms] by (auto intro!: typed_update_data)
qed

lemma typed_back_to_time: "typed_session s \<Longrightarrow> typed_session (snd (process_back_to_time s))"
  by (simp add: process_back_to_time_def split: option.splits)

lemma typed_exact_time:
  "typed_session s \<Longrightarrow> typed_session (fst (snd (process_exact_time now u d s st)))"
  by (auto simp: process_exact_time_def Let_def split: sum.splits)

lemma typed_all_day:
  "typed_session s \<Longrightarrow> typed_session (fst (snd (process_time_all_day now u s st)))"
  by (auto simp: process_time_all_day_def Let_def split: sum.splits)

lemma typed_edit_name:
  assumes "typed_session s"
  shows "typed_session (snd (process_edit_name d s))"
  using assms typed_fields [OF assms]
  by (auto simp: process_edit_name_def intro!: typed_set_state typed_update_data split: sum.splits)

lemma typed_task_name:
  "typed_session s \<Longrightarrow> typed_session (process_task_name txt s)"
  unfolding process_task_name_def typed_session_def set_state_def update_data_def
  by (auto split: option.splits task_state.splits)

lemma typed_edit_name_input:
  "typed_session s \<Longrightarrow> typed_session (fst (snd (process_edit_name_input u txt s st)))"
  by (auto simp: process_edit_name_input_def split: option.splits)

lemma typed_run_callback:
  assumes "typed_session s" and "h \<noteq> H_edit_deadline"
  shows "typed_session (fst (snd (run_callback now u d h s st)))"
  using assms
  by (cases h) (simp_all add: run_callback_def case_prod_beta typed_month typed_day typed_hour
      typed_back_to_time typed_exact_time typed_all_day typed_set_state typed_edit_name)

lemma typed_handle_message:
  "typed_session s \<Longrightarrow> typed_session (fst (snd (handle_message me u t s st)))"
  by (simp add: handle_message_def cmd_add_def typed_set_state typed_task_name typed_edit_name_input
      split: message_text.split)

lemma typed_step:
  assumes "\<forall>v. typed_session (sessions b v)"
  shows "\<forall>v. typed_session (sessions (snd (step me now ev b)) v)"
proof (cases ev)
  case (Message u t)
  then show ?thesis using assms typed_handle_message [of "sessions b u"]
    by (simp add: step_def case_prod_beta)
next
  case (CallbackQuery u d)
  then show ?thesis using assms dispatch_edit_unreachable [of d] typed_run_callback [of "sessions b u"]
    by (auto simp: step_def case_prod_beta split: option.splits)
qed

lemma no_edit_step:
  assumes "\<forall>v. no_edit_session (sessions b v)"
  shows "\<forall>v. no_edit_session (sessions (snd (step me now ev b)) v)"
proof (cases ev)
  case (Message u t)
  then show ?thesis using assms no_edit_handle_message [of "sessions b u"]
    by (simp add: step_def case_prod_beta)
next
  case (CallbackQuery u d)
  then show ?thesis using assms dispatch_edit_unreachable [of d] no_edit_run_callback [of "sessions b u"]
    by (auto simp: step_def case_prod_beta split: option.splits)
qed

lemma add_task_stores:
  "abs_store (snd (add_task u nm dl c st)) u (fst (add_task u nm dl c st)) = Some (new_task nm dl c)"
  by (simp add: add_task_def Let_def abs_store_def user_tasks_def store_simps update_conv')

lemma time_str_no_sep: "CHR ''_'' \<notin> set (time_str h mi)"
  using pad2_is_digit is_digit_not_sep by (auto simp: time_str_def)

lemma dispatch_exact_time: "dispatch_callback (''fulltime_'' @ x) = Some H_exact_time"
  by (simp add: dispatch_callback_def callback_routes_def)

lemma dispatch_all_day: "dispatch_callback ''time_all_day'' = Some H_time_all_day"
  by (simp add: dispatch_callback_def callback_routes_def)

lemma step_callback:
  "dispatch_callback d = Some h \<Longrightarrow>
   step me now (CallbackQuery u d) b =
     (case run_callback now u d h (sessions b u) (tasks b) of
        (e, s', st') \<Rightarrow> (e, \<lparr>tasks = st', sessions = (sessions b)(u := s')\<rparr>))"
  by (simp add: step_def)



lemma py_split_one_word: "w \<noteq> [] \<Longrightarrow> \<forall>c \<in> set w. \<not> py_isspace c \<Longrightarrow> py_split w = [w]"
  using py_split_word [of w "[]"] py_split_Nil_iff [of "[]"] by simp

lemma py_split_add: "py_split ''/add'' = [''/add'']"
  by (rule py_split_one_word) (simp_all add: py_isspace_def)

lemma handle_add_command: "handle_message me u (Text ''/add'') s st = (None, cmd_add s, st)"
  by (simp add: handle_message_def is_command_def py_split_add)

lemma step_hide: "step me now (CallbackQuery u ''hide_calendar'') b = (None, b)"
  by (simp add: step_def dispatch_hide run_callback_def)

lemma step_message:
  "step me now (Message u t) b =
     (case handle_message me u t (sessions b u) (tasks b) of
        (e, s', st') \<Rightarrow> (e, \<lparr>tasks = st', sessions = (sessions b)(u := s')\<rparr>))"
  by (simp add: step_def)



lemma wf_ensure_user: "wf_store st \<Longrightarrow> wf_store (ensure_user u st)"
  by (simp add: ensure_user_def wf_store_update)

lemma wf_add_task_snd: "wf_store st \<Longrightarrow> wf_store (snd (add_task u nm dl c st))"
  using wf_add_task [of st u nm dl c "fst (add_task u nm dl c st)" "snd (add_task u nm dl c st)"] by simp

lemma wf_exact_time: "wf_store st \<Longrightarrow> wf_store (snd (snd (process_exact_time now u d s st)))"
  by (auto simp: process_exact_time_def Let_def wf_add_task_snd split: sum.splits intro: wf_set_deadline)

lemma wf_all_day: "wf_store st \<Longrightarrow> wf_store (snd (snd (process_time_all_day now u s st)))"
  by (auto simp: process_time_all_day_def Let_def wf_add_task_snd wf_ensure_user split: sum.splits
      intro: wf_set_deadline wf_ensure_user)

lemma wf_complete: "wf_store st \<Longrightarrow> wf_store (snd (process_complete_task now u d st))"
  by (auto simp: process_complete_task_def toggle_task_def split: sum.splits option.splits
      intro: wf_modify_task)

lemma wf_delete: "wf_store st \<Longrightarrow> wf_store (snd (process_delete_task u d st))"
  by (auto simp: process_delete_task_def split: sum.splits option.splits intro: wf_delete_task)

lemma wf_edit_name_input: "wf_store st \<Longrightarrow> wf_store (snd (snd (process_edit_name_input u txt s st)))"
  by (auto simp: process_edit_name_input_def rename_task_def split: option.splits intro: wf_modify_task)

lemma wf_run_callback: "wf_store st \<Longrightarrow> wf_store (snd (snd (run_callback now u d h s st)))"
  by (cases h) (simp_all add: run_callback_def case_prod_beta wf_exact_time wf_all_day wf_complete wf_delete)

lemma wf_handle_message: "wf_store st \<Longrightarrow> wf_store (snd (snd (handle_message me u t s st)))"
  by (auto simp: handle_message_def wf_edit_name_input split: message_text.splits)

lemma wf_step: "wf_store (tasks b) \<Longrightarrow> wf_store (tasks (snd (step me now ev b)))"
  by (cases ev) (auto simp: step_def case_prod_beta wf_run_callback wf_handle_message split: option.splits)

section \<open>Properties of the dialog\<close>

text \<open>C14. Callback routing: every payload that starts with \<^verbatim>\<open>edit_\<close> is handled by
  \<^verbatim>\<open>process_edit_task\<close>, registered before \<^verbatim>\<open>process_edit_name\<close> and
  \<^verbatim>\<open>process_edit_deadline\<close>; the buttons \<^verbatim>\<open>edit_name_{id}\<close> and
  \<^verbatim>\<open>edit_deadline_{id}\<close> only show the edit menu again.\<close>

theorem dispatch_edit_prefix: "prefix ''edit_'' d \<Longrightarrow> dispatch_callback d = Some H_edit_task"
proof -
  assume "prefix ''edit_'' d"
  then obtain r where "d = ''edit_'' @ r" by (auto simp: prefix_def)
  then show ?thesis by (simp add: dispatch_callback_def callback_routes_def)
qed

theorem dispatch_edit_prefix_witness:
  "dispatch_callback ''edit_name_1'' = Some H_edit_task \<and>
   dispatch_callback ''edit_deadline_1'' = Some H_edit_task"
  using dispatch_edit_prefix [of "''edit_name_1''"] dispatch_edit_prefix [of "''edit_deadline_1''"]
  by simp

text \<open>C15. In every state the bot reaches, no user's context is in the edit flows: no
  \<^verbatim>\<open>is_editing\<close> flag, no \<^verbatim>\<open>edit_task_id\<close>, and none of the states
  \<^verbatim>\<open>waiting_for_edit_name\<close>, \<^verbatim>\<open>waiting_for_edit_deadline\<close>,
  \<^verbatim>\<open>waiting_for_time_selection\<close>.  The deadline edit and the rename of the dialog are
  dead code.\<close>

theorem reachable_edit_free: "reachable b \<Longrightarrow> no_edit_session (sessions b u)"
proof (induction arbitrary: u rule: reachable.induct)
  case init
  then show ?case by (simp add: init_bot_def)
next
  case (step b me now ev)
  then show ?case using no_edit_step [of b me now ev] by blast
qed

theorem reachable_edit_free_witness:
  "no_edit_session (sessions (snd (step ''TaskBot'' pick_now (CallbackQuery 5 ''edit_deadline_1'') init_bot)) 5)"
  using reachable_edit_free [OF reachable.step [OF reachable.init]] by blast

text \<open>C16. Cancel does not reset the dialog: \<^verbatim>\<open>hide_calendar\<close> changes neither the store nor
  the context, and a following \<^verbatim>\<open>/add\<close> only sets the state, so the month, year, day and
  date picked before the cancel are still in the context of the new dialog.\<close>

theorem cancel_keeps_selection:
  "run me [(now, CallbackQuery u ''hide_calendar''), (now', Message u (Text ''/add''))] b =
   ([None, None], b\<lparr>sessions := (sessions b)(u := set_state WaitingForTaskName (sessions b u))\<rparr>)"
  by (simp add: step_hide step_message handle_add_command cmd_add_def)

text \<open>C17. \<^verbatim>\<open>All Day\<close> pressed when the context holds no date (after the dialog was
  completed or never started) creates a task whose deadline is \<^verbatim>\<open>None\<close>, and whose name
  is whatever the context holds.\<close>

theorem all_day_without_date:
  assumes "data_date_str (fsm_data (sessions b u)) = None"
    and "is_editing (fsm_data (sessions b u)) \<noteq> Some True"
  shows "fst (step me now (CallbackQuery u ''time_all_day'') b) = None \<and>
         sessions (snd (step me now (CallbackQuery u ''time_all_day'') b)) u = empty_session \<and>
         (\<exists>tid. abs_store (tasks (snd (step me now (CallbackQuery u ''time_all_day'') b))) u tid =
                  Some (new_task (task_name (fsm_data (sessions b u))) None (strftime_minute now)))"
  using assms add_task_stores [of u "task_name (fsm_data (sessions b u))" None "strftime_minute now"
      "ensure_user u (tasks b)"]
  by (auto simp: step_callback [OF dispatch_all_day] run_callback_def process_time_all_day_def Let_def
      case_prod_beta)

theorem all_day_without_date_witness:
  "fst (step ''TaskBot'' pick_now (CallbackQuery 5 ''time_all_day'') init_bot) = None \<and>
   (\<exists>tid. abs_store (tasks (snd (step ''TaskBot'' pick_now (CallbackQuery 5 ''time_all_day'') init_bot))) 5 tid =
          Some (new_task None None (strftime_minute pick_now)))"
  using all_day_without_date [of init_bot 5 "''TaskBot''" pick_now]
  by (simp add: init_bot_def empty_session_def empty_data_def)

text \<open>C18. Picking a minute completes the dialog: the context is cleared and the store gets a
  new open task with the dialog's name, no firing record, and a deadline string that the
  scanner parses to exactly the picked date and time.\<close>

theorem exact_time_deadline:
  assumes "data_date_str (fsm_data (sessions b u)) = Some (date_str d m y)"
    and "is_editing (fsm_data (sessions b u)) \<noteq> Some True"
    and "1 \<le> m" "m \<le> 12" "1 \<le> d" "d \<le> days_in_month m y" "1000 \<le> y" "y < 10000" "h < 24" "mi < 60"
  shows "fst (step me now (CallbackQuery u (''fulltime_'' @ time_str h mi)) b) = None \<and>
         sessions (snd (step me now (CallbackQuery u (''fulltime_'' @ time_str h mi)) b)) u = empty_session \<and>
         (\<exists>tid tk. abs_store (tasks (snd (step me now (CallbackQuery u (''fulltime_'' @ time_str h mi)) b))) u tid = Some tk \<and>
            name tk = task_name (fsm_data (sessions b u)) \<and> \<not> completed tk \<and> reminded_at tk = [] \<and>
            map_option parse_deadline (deadline tk) =
              Some (Some \<lparr>year = y, month = m, day = d, hour = h, minute = mi, second = 0, microsecond = 0\<rparr>))"
proof -
  let ?s = "sessions b u"
  let ?dl = "date_str d m y @ '' '' @ time_str h mi"
  have p: "parse_deadline ?dl = Some \<lparr>year = y, month = m, day = d, hour = h, minute = mi, second = 0, microsecond = 0\<rparr>"
    using strptime_date_time [OF assms(3-10)] unfolding parse_deadline_def py_split_date_time by simp
  have r: "run_callback now u (''fulltime_'' @ time_str h mi) H_exact_time ?s (tasks b) =
     (None, empty_session, snd (add_task u (task_name (fsm_data ?s)) (Some ?dl) (strftime_minute now) (tasks b)))"
    using assms(1,2) by (simp add: run_callback_def process_exact_time_def py_split_sep_no_sep
        time_str_no_sep py_index_def fmt_opt_def)
  have st: "step me now (CallbackQuery u (''fulltime_'' @ time_str h mi)) b =
     (None, \<lparr>tasks = snd (add_task u (task_name (fsm_data ?s)) (Some ?dl) (strftime_minute now) (tasks b)),
             sessions = (sessions b)(u := empty_session)\<rparr>)"
    by (rule trans [OF step_callback [OF dispatch_exact_time]]) (unfold r, simp)
  show ?thesis
    using add_task_stores [of u "task_name (fsm_data ?s)" "Some ?dl" "strftime_minute now" "tasks b"] p
    unfolding st by (fastforce simp: new_task_def)
qed

theorem exact_time_deadline_witness:
  "fst (step ''TaskBot'' pick_now (CallbackQuery 5 (''fulltime_'' @ time_str 10 0)) picked_bot) = None \<and>
   (\<exists>tid tk. abs_store (tasks (snd (step ''TaskBot'' pick_now (CallbackQuery 5 (''fulltime_'' @ time_str 10 0)) picked_bot))) 5 tid = Some tk \<and>
      name tk = Some ''Report'' \<and>
      map_option parse_deadline (deadline tk) =
        Some (Some \<lparr>year = 2030, month = 1, day = 1, hour = 10, minute = 0, second = 0, microsecond = 0\<rparr>))"
proof -
  have "data_date_str (fsm_data (sessions picked_bot 5)) = Some (date_str 1 1 2030)"
    "is_editing (fsm_data (sessions picked_bot 5)) \<noteq> Some True"
    "task_name (fsm_data (sessions picked_bot 5)) = Some ''Report''"
    by (simp_all add: picked_bot_def init_bot_def empty_data_def)
  then show ?thesis
    using exact_time_deadline [of picked_bot 5 1 1 2030 10 0 "''TaskBot''" pick_now]
    by (simp add: days_in_month_def) blast
qed


text \<open>C25. The day handler decodes what the day keyboard encodes: on the payload
  \<^verbatim>\<open>day_{d}_{m}_{y}\<close> of a day button it stores the day and the string
  \<^verbatim>\<open>f"{d:02d}.{m:02d}.{y}"\<close> in the context and raises nothing.\<close>

theorem day_payload_roundtrip:
  "m \<le> 12 \<Longrightarrow> process_day_selection (day_payload d m y) s =
     (None, update_data (\<lambda>x. x\<lparr>selected_day := Some d, data_date_str := Some (date_str d m y)\<rparr>) s)"
  by (simp add: process_day_selection_def day_payload_split py_int_show_nat update_data_def)

theorem day_payload_roundtrip_witness:
  "process_day_selection (day_payload 1 1 2030) empty_session =
     (None, update_data (\<lambda>x. x\<lparr>selected_day := Some 1, data_date_str := Some (date_str 1 1 2030)\<rparr>) empty_session)"
  using day_payload_roundtrip [of 1 1 2030 empty_session] by simp

text \<open>C33. The data dict of aiogram's FSM context is untyped, but the handlers keep its
  fields consistent in every reachable state: in the date selection state a task name is
  stored, month and year are stored together, and a stored date string comes with a stored
  day.\<close>

theorem reachable_typed: "reachable b \<Longrightarrow> typed_session (sessions b u)"
proof (induction arbitrary: u rule: reachable.induct)
  case init
  then show ?case by (simp add: init_bot_def)
next
  case (step b me now ev)
  then show ?case using typed_step [of b me now ev] by blast
qed

theorem reachable_typed_witness:
  "typed_session (sessions (snd (step ''TaskBot'' pick_now (CallbackQuery 5 ''edit_deadline_1'') init_bot)) 5)"
  using reachable_typed [OF reachable.step [OF reachable.init]] by blast

text \<open>C34. The keyboards of \<^verbatim>\<open>get_task_keyboard\<close> and the dispatcher agree for every
  task id the store hands out (\<^verbatim>\<open>str(n)\<close>): the list button reaches
  \<^verbatim>\<open>process_view_task\<close> and the card's Completed, Edit, Delete and Back buttons reach
  their handlers.  Completed toggles and Delete deletes exactly that task.\<close>

theorem task_buttons_act:
  assumes "find_task (tasks b) u (show_nat n) = Some tk"
  shows "((completed tk, name tk, deadline tk), ''view_'' @ show_nat n) \<in> set (task_listing (tasks b) u) \<and>
         dispatch_callback (''view_'' @ show_nat n) = Some H_view_task \<and>
         map dispatch_callback (task_buttons (show_nat n)) =
           [Some H_complete_task, Some H_edit_task, Some H_delete_task, Some H_list_tasks] \<and>
         toggle_task u (show_nat n) (tasks b) =
           Some (tasks (snd (step me now (CallbackQuery u (task_buttons (show_nat n) ! 0)) b))) \<and>
         delete_task u (show_nat n) (tasks b) =
           Some (tasks (snd (step me now (CallbackQuery u (task_buttons (show_nat n) ! 2)) b)))"
proof -
  let ?t = "show_nat n"
  have sp: "py_split_sep CHR ''_'' ?t = [?t]" by (rule py_split_sep_no_sep [OF show_nat_no_sep])
  have "(?t, tk) \<in> set (user_tasks (tasks b) u)"
    using assms by (auto simp: find_task_def user_tasks_def split: option.splits dest: map_of_SomeD)
  then have l: "((completed tk, name tk, deadline tk), ''view_'' @ ?t) \<in> set (task_listing (tasks b) u)"
    by (force simp: task_listing_def)
  have dv: "dispatch_callback (''view_'' @ ?t) = Some H_view_task"
    by (simp add: dispatch_callback_def callback_routes_def)
  have dm: "map dispatch_callback (task_buttons ?t) =
      [Some H_complete_task, Some H_edit_task, Some H_delete_task, Some H_list_tasks]"
    by (simp add: task_buttons_def dispatch_callback_def callback_routes_def)
  obtain st' where tg: "toggle_task u ?t (tasks b) = Some st'"
    using assms by (auto simp: toggle_task_def modify_task_def find_task_def split: option.splits)
  obtain st'' where dl: "delete_task u ?t (tasks b) = Some st''"
    using assms by (auto simp: delete_task_def)
  have c: "tasks (snd (step me now (CallbackQuery u (task_buttons ?t ! 0)) b)) = st'"
    using tg by (simp add: task_buttons_def step_def dispatch_callback_def callback_routes_def
        run_callback_def process_complete_task_def py_index_def sp case_prod_beta
        split: option.split sum.split)
  have d: "tasks (snd (step me now (CallbackQuery u (task_buttons ?t ! 2)) b)) = st''"
    using dl by (simp add: task_buttons_def step_def dispatch_callback_def callback_routes_def
        run_callback_def process_delete_task_def py_index_def sp case_prod_beta)
  show ?thesis using l dv dm tg dl c d by simp
qed

theorem task_buttons_act_witness:
  "find_task (tasks (init_bot\<lparr>tasks := two_tasks\<rparr>)) 7 (show_nat 2) = Some task_b \<and>
   delete_task 7 (show_nat 2) two_tasks =
     Some (tasks (snd (step ''TaskBot'' pick_now (CallbackQuery 7 (task_buttons (show_nat 2) ! 2))
       (init_bot\<lparr>tasks := two_tasks\<rparr>))))"
proof -
  have f: "find_task (tasks (init_bot\<lparr>tasks := two_tasks\<rparr>)) 7 (show_nat 2) = Some task_b"
    by (simp add: find_task_def two_tasks_def digit_char_def)
  show ?thesis using task_buttons_act [OF f, of "''TaskBot''" pick_now] f by simp
qed

end
