(* ===== verification/AsyncScan.thy ===== *)
theory AsyncScan
  imports Reminder Dialog
begin

text \<open>The scanner pass of src/main.py with the dispatcher running during its awaits.
  \<^verbatim>\<open>check_deadlines\<close> (lines 125--174) and the handlers share the dict \<^verbatim>\<open>tasks\<close>; a task is
  a dict object, and \<^verbatim>\<open>list(tasks[user_id].items())\<close> (line 131) copies references to
  those objects, not the objects.  \<^verbatim>\<open>await bot.send_message\<close> (line 111) yields to the
  event loop, so handlers run between the lookup of the task in \<^verbatim>\<open>send_reminder\<close> and the
  append of the firing record to that same object (line 123), and between two tasks of the
  scan.  This theory models the store as a heap of task objects (\<open>objs\<close>, indexed by
  address) and a dict of dicts of addresses (\<open>hdict\<close>), the store operations of the
  handlers on it, and the pass as a loop over the users' dict with CPython's size check:
  \<^verbatim>\<open>for user_id in tasks\<close> raises \<^verbatim>\<open>RuntimeError\<close> when the dict changed size since
  the loop began.  The handlers that run during the n-th send are the n-th batch of a
  schedule of store operations.\<close>

section \<open>The store as a heap of task objects\<close>

type_synonym addr = nat

record heap_store =
  hdict :: "(int \<times> (string \<times> addr) list) list"
  objs :: "addr \<Rightarrow> task option"
  next_addr :: addr

text \<open>The value store a heap store stands for: each reference replaced by its object.\<close>

definition abs_ps :: "(addr \<Rightarrow> task option) \<Rightarrow> (string \<times> addr) list \<Rightarrow> user_tasks" where
  "abs_ps f ps = map (\<lambda>(t, a). (t, the (f a))) ps"

definition abs_h :: "heap_store \<Rightarrow> store" where
  "abs_h h = map (\<lambda>(u, ps). (u, abs_ps (objs h) ps)) (hdict h)"

text \<open>A heap store is well formed when the keys of both levels are distinct, every
  reference points to an allocated object below \<open>next_addr\<close>, and no two entries share an
  object: every task dict is created by its own literal (lines 677 and 952).\<close>

definition h_entries :: "(int \<times> (string \<times> addr) list) list \<Rightarrow> (int \<times> string \<times> addr) list" where
  "h_entries d = concat (map (\<lambda>(u, ps). map (\<lambda>(t, a). (u, t, a)) ps) d)"

definition no_alias :: "(int \<times> (string \<times> addr) list) list \<Rightarrow> bool" where
  "no_alias d \<longleftrightarrow>
     (\<forall>e \<in> set (h_entries d). \<forall>e' \<in> set (h_entries d). snd (snd e) = snd (snd e') \<longrightarrow> e = e')"

definition wf_h :: "heap_store \<Rightarrow> bool" where
  "wf_h h \<longleftrightarrow> distinct (map fst (hdict h)) \<and> (\<forall>p \<in> set (hdict h). distinct (map fst (snd p))) \<and>
     (\<forall>e \<in> set (h_entries (hdict h)). snd (snd e) < next_addr h \<and> objs h (snd (snd e)) \<noteq> None) \<and>
     no_alias (hdict h)"

text \<open>\<^verbatim>\<open>user_id in tasks and task_id in tasks[user_id]\<close>, giving the reference.\<close>

definition h_lookup :: "heap_store \<Rightarrow> int \<Rightarrow> string \<Rightarrow> addr option" where
  "h_lookup h u t = (case map_of (hdict h) u of None \<Rightarrow> None | Some ps \<Rightarrow> map_of ps t)"

section \<open>Store operations on the heap\<close>

text \<open>The store effects of the handlers (\<open>Dialog\<close>), one constructor per operation.\<close>

datatype store_op =
    OpEnsureUser int
  | OpAdd int "string option" "string option" string
  | OpToggle int string
  | OpRename int string string
  | OpDelete int string
  | OpSetDeadline int "string option" "string option"

text \<open>Their effect on the value store, by the operations of \<open>TaskStore\<close>; a guard that fails
  or a \<^verbatim>\<open>KeyError\<close> leaves the store as it was.\<close>

fun apply_op :: "store_op \<Rightarrow> store \<Rightarrow> store" where
  "apply_op (OpEnsureUser u) st = ensure_user u st"
| "apply_op (OpAdd u nm dl c) st = snd (add_task u nm dl c st)"
| "apply_op (OpToggle u t) st = (case toggle_task u t st of None \<Rightarrow> st | Some st' \<Rightarrow> st')"
| "apply_op (OpRename u t nm) st = (case rename_task u t nm st of None \<Rightarrow> st | Some st' \<Rightarrow> st')"
| "apply_op (OpDelete u t) st = (case delete_task u t st of None \<Rightarrow> st | Some st' \<Rightarrow> st')"
| "apply_op (OpSetDeadline u t dl) st = (case set_deadline u t dl st of Inl _ \<Rightarrow> st | Inr st' \<Rightarrow> st')"

text \<open>\<^verbatim>\<open>if user_id not in tasks: tasks[user_id] = {}\<close>.\<close>

definition h_ensure_user :: "int \<Rightarrow> heap_store \<Rightarrow> heap_store" where
  "h_ensure_user u h =
     (if map_of (hdict h) u = None then h\<lparr>hdict := AList.update u [] (hdict h)\<rparr> else h)"

text \<open>Lines 672--683: a new dict object at a fresh address, stored under
  \<^verbatim>\<open>str(len + 1)\<close>.\<close>

definition h_add_task ::
  "int \<Rightarrow> string option \<Rightarrow> string option \<Rightarrow> string \<Rightarrow> heap_store \<Rightarrow> string \<times> heap_store" where
  "h_add_task u nm dl created h =
     (let h1 = h_ensure_user u h;
          ps = (case map_of (hdict h1) u of None \<Rightarrow> [] | Some ps \<Rightarrow> ps);
          tid = show_nat (length ps + 1);
          a = next_addr h1
      in (tid, h1\<lparr>hdict := AList.update u (AList.update tid a ps) (hdict h1),
                  objs := (objs h1)(a \<mapsto> new_task nm dl created), next_addr := Suc a\<rparr>))"

text \<open>\<^verbatim>\<open>tasks[user_id][task_id][key] = value\<close> under the membership guard: the object
  is changed in place.\<close>

definition h_modify_task :: "int \<Rightarrow> string \<Rightarrow> (task \<Rightarrow> task) \<Rightarrow> heap_store \<Rightarrow> heap_store option" where
  "h_modify_task u t f h =
     (case h_lookup h u t of
        None \<Rightarrow> None
      | Some a \<Rightarrow> Some (h\<lparr>objs := (objs h)(a \<mapsto> f (the (objs h a)))\<rparr>))"

text \<open>Line 832: \<^verbatim>\<open>del tasks[user_id][task_id]\<close> removes the reference; the object lives
  on as long as a snapshot refers to it.\<close>

definition h_delete_task :: "int \<Rightarrow> string \<Rightarrow> heap_store \<Rightarrow> heap_store option" where
  "h_delete_task u t h =
     (case map_of (hdict h) u of
        None \<Rightarrow> None
      | Some ps \<Rightarrow> (case map_of ps t of
                     None \<Rightarrow> None
                   | Some _ \<Rightarrow> Some (h\<lparr>hdict := AList.update u (AList.delete t ps) (hdict h)\<rparr>)))"

fun h_apply_op :: "store_op \<Rightarrow> heap_store \<Rightarrow> heap_store" where
  "h_apply_op (OpEnsureUser u) h = h_ensure_user u h"
| "h_apply_op (OpAdd u nm dl c) h = snd (h_add_task u nm dl c h)"
| "h_apply_op (OpToggle u t) h =
     (case h_modify_task u t (\<lambda>tk. tk\<lparr>completed := \<not> completed tk\<rparr>) h of None \<Rightarrow> h | Some h' \<Rightarrow> h')"
| "h_apply_op (OpRename u t nm) h =
     (case h_modify_task u t (\<lambda>tk. tk\<lparr>name := Some nm\<rparr>) h of None \<Rightarrow> h | Some h' \<Rightarrow> h')"
| "h_apply_op (OpDelete u t) h = (case h_delete_task u t h of None \<Rightarrow> h | Some h' \<Rightarrow> h')"
| "h_apply_op (OpSetDeadline u t dl) h =
     (case t of
        None \<Rightarrow> h
      | Some tid \<Rightarrow> (case h_modify_task u tid (\<lambda>tk. tk\<lparr>deadline := dl\<rparr>) h of None \<Rightarrow> h | Some h' \<Rightarrow> h'))"

text \<open>Line 123: append to the object \<^verbatim>\<open>send_reminder\<close> looked up before its await.\<close>

definition h_append :: "addr \<Rightarrow> string \<Rightarrow> heap_store \<Rightarrow> heap_store" where
  "h_append a stamp h =
     h\<lparr>objs := (objs h)(a := map_option (\<lambda>tk. tk\<lparr>reminded_at := reminded_at tk @ [stamp]\<rparr>) (objs h a))\<rparr>"

section \<open>The pass with handlers running during its awaits\<close>

type_synonym schedule = "store_op list list"
type_synonym houtcome = "py_error option \<times> schedule \<times> heap_store \<times> notification list"

text \<open>\<^verbatim>\<open>await bot.send_message(...)\<close> (line 111): the event loop runs the next batch of
  handler effects of the schedule, none once it is exhausted.\<close>

definition h_await :: "schedule \<Rightarrow> heap_store \<Rightarrow> schedule \<times> heap_store" where
  "h_await sched h = (case sched of [] \<Rightarrow> ([], h) | ops # rest \<Rightarrow> (rest, fold h_apply_op ops h))"

text \<open>\<^verbatim>\<open>send_reminder\<close> (lines 75--123): the object is looked up before the await; the
  record is appended to that object after it, whatever the handlers did meanwhile.  A send
  that raises also awaited first.\<close>

definition h_send_reminder ::
  "scan_env \<Rightarrow> int \<Rightarrow> string \<Rightarrow> timedelta \<Rightarrow> schedule \<Rightarrow> heap_store \<Rightarrow> houtcome" where
  "h_send_reminder env u t d sched h =
     (case h_lookup h u t of
        None \<Rightarrow> (None, sched, h, [])
      | Some a \<Rightarrow>
          (if completed (the (objs h a)) then (None, sched, h, [])
           else (case reminder_kind_of d of
                   None \<Rightarrow> (None, sched, h, [])
                 | Some k \<Rightarrow>
                     (case h_await sched h of
                        (sched1, h1) \<Rightarrow>
                          if delivers env u t
                          then (None, sched1, h_append a (strftime_minute (sent_at env u t)) h1, [(u, t, k)])
                          else (Some (SendFailed u), sched1, h1, [])))))"

text \<open>Lines 131--171 for one entry of the snapshot: the reference is read when the loop
  reaches it, so the checks see the object as the handlers left it.\<close>

definition h_check_task :: "scan_env \<Rightarrow> int \<Rightarrow> string \<times> addr \<Rightarrow> schedule \<Rightarrow> heap_store \<Rightarrow> houtcome" where
  "h_check_task env u p sched h =
     (let t = fst p; tk = the (objs h (snd p)) in
      if completed tk then (None, sched, h, [])
      else (case deadline tk of
              None \<Rightarrow> (Some AttributeError, sched, h, [])
            | Some s \<Rightarrow>
                (case parse_deadline s of
                   None \<Rightarrow> (None, sched, h, [])
                 | Some dl \<Rightarrow>
                     let d = dt_sub dl (now env) in
                     (case scan_branch (now env) d (reminded_at tk) of
                        None \<Rightarrow> (None, sched, h, [])
                      | Some _ \<Rightarrow> h_send_reminder env u t d sched h))))"

text \<open>Line 131: the loop over the snapshot \<^verbatim>\<open>list(tasks[user_id].items())\<close>.\<close>

fun h_scan_tasks :: "scan_env \<Rightarrow> int \<Rightarrow> (string \<times> addr) list \<Rightarrow> schedule \<Rightarrow> heap_store \<Rightarrow> houtcome" where
  "h_scan_tasks env u [] sched h = (None, sched, h, [])"
| "h_scan_tasks env u (p # ps) sched h =
     (case h_check_task env u p sched h of
        (Some e, sched1, h1, ns1) \<Rightarrow> (Some e, sched1, h1, ns1)
      | (None, sched1, h1, ns1) \<Rightarrow>
          (case h_scan_tasks env u ps sched1 h1 of (r, sched2, h2, ns2) \<Rightarrow> (r, sched2, h2, ns1 @ ns2)))"

text \<open>Line 130: \<^verbatim>\<open>for user_id in tasks\<close> over the live dict.  Each step of CPython's
  dict iterator first compares the dict's size with the size \<open>n\<close> it had when the loop
  began and raises \<^verbatim>\<open>RuntimeError\<close> when they differ, then yields the key at its
  position \<open>i\<close> or stops.  Users are never removed from \<^verbatim>\<open>tasks\<close>, so positions are
  stable.  Written as a possibly non-terminating loop; \<open>h_scan_pass_terminates\<close> shows
  that it always returns.\<close>

partial_function (option) h_scan_users ::
  "scan_env \<Rightarrow> nat \<Rightarrow> nat \<Rightarrow> schedule \<Rightarrow> heap_store \<Rightarrow> houtcome option" where
  "h_scan_users env n i sched h =
     (if length (hdict h) \<noteq> n then Some (Some RuntimeError, sched, h, [])
      else if n \<le> i then Some (None, sched, h, [])
      else (case h_scan_tasks env (fst (hdict h ! i)) (snd (hdict h ! i)) sched h of
              (Some e, sched1, h1, ns1) \<Rightarrow> Some (Some e, sched1, h1, ns1)
            | (None, sched1, h1, ns1) \<Rightarrow>
                Option.bind (h_scan_users env n (Suc i) sched1 h1)
                  (\<lambda>(r, sched2, h2, ns2). Some (r, sched2, h2, ns1 @ ns2))))"

text \<open>Lines 128--171: one pass.\<close>

definition h_scan_pass :: "scan_env \<Rightarrow> schedule \<Rightarrow> heap_store \<Rightarrow> houtcome option" where
  "h_scan_pass env sched h = h_scan_users env (length (hdict h)) 0 sched h"

section \<open>Example inputs\<close>

text \<open>The store of \<open>Reminder.demo_store\<close> as a heap, and a second task of the same user.\<close>

definition report_task :: task where
  "report_task = new_task (Some ''Report'') (Some ''01.01.2030 10:00'') ''01.12.2029 08:00''"

definition slides_task :: task where
  "slides_task = new_task (Some ''Slides'') (Some ''01.01.2030 10:00'') ''01.12.2029 08:10''"

definition demo_heap :: heap_store where
  "demo_heap = \<lparr>hdict = [(1, [(''1'', 0)])], objs = [0 \<mapsto> report_task], next_addr = 1\<rparr>"


section \<open>Lemmas on the abstraction\<close>

lemma set_update_sub: "set (AList.update k v al) \<subseteq> insert (k, v) (set al)"
  by (induction al) auto

lemma set_delete_sub: "set (AList.delete k al) \<subseteq> set al"
  by (simp add: AList.delete_eq)

lemma update_as_map:
  "distinct (map fst al) \<Longrightarrow> k \<in> fst ` set al \<Longrightarrow>
   AList.update k v al = map (\<lambda>p. if fst p = k then (k, v) else p) al"
proof (induction al)
  case (Cons p al)
  show ?case
  proof (cases "fst p = k")
    case True
    then have "\<forall>q \<in> set al. fst q \<noteq> k" using Cons.prems(1) by (force simp: image_iff)
    then have "map (\<lambda>p. if fst p = k then (k, v) else p) al = al" by (simp add: map_idI)
    then show ?thesis using True by simp
  qed (use Cons in auto)
qed simp

lemma abs_ps_update [heap_simps]: "abs_ps f (AList.update k a ps) = AList.update k (the (f a)) (abs_ps f ps)"
  by (induction ps) (auto simp: abs_ps_def)

lemma abs_ps_delete [heap_simps]: "abs_ps f (AList.delete k ps) = AList.delete k (abs_ps f ps)"
  by (induction ps) (auto simp: abs_ps_def)

lemma abs_ps_Nil [heap_simps]: "abs_ps f [] = []"
  by (simp add: abs_ps_def)

lemma map_of_abs_ps [heap_simps]: "map_of (abs_ps f ps) t = map_option (\<lambda>a. the (f a)) (map_of ps t)"
  by (induction ps) (auto simp: abs_ps_def)

lemma length_abs_ps [heap_simps]: "length (abs_ps f ps) = length ps"
  by (simp add: abs_ps_def)

lemma abs_ps_frame:
  "a \<notin> snd ` set ps \<Longrightarrow> abs_ps (f(a := x)) ps = abs_ps f ps"
  by (force simp: abs_ps_def image_iff)

lemma map_snd_update:
  "map (\<lambda>(u, ps). (u, g ps)) (AList.update k v d) = AList.update k (g v) (map (\<lambda>(u, ps). (u, g ps)) d)"
  by (induction d) auto

lemma abs_h_update_dict [heap_simps]:
  "abs_h (h\<lparr>hdict := AList.update u ps (hdict h)\<rparr>) = AList.update u (abs_ps (objs h) ps) (abs_h h)"
  unfolding abs_h_def by (simp add: map_snd_update)

lemma map_of_abs_h [heap_simps]:
  "map_of (abs_h h) u = map_option (abs_ps (objs h)) (map_of (hdict h) u)"
  unfolding abs_h_def by (simp add: map_of_map case_prod_beta)

lemma user_tasks_abs_h [heap_simps]:
  "user_tasks (abs_h h) u = (case map_of (hdict h) u of None \<Rightarrow> [] | Some ps \<Rightarrow> abs_ps (objs h) ps)"
  by (simp add: user_tasks_def map_of_abs_h split: option.split)

lemma find_task_abs_h [heap_simps]:
  "find_task (abs_h h) u t = map_option (\<lambda>a. the (objs h a)) (h_lookup h u t)"
  by (simp add: find_task_def h_lookup_def map_of_abs_h map_of_abs_ps split: option.split)

lemma map_fst_abs_ps [heap_simps]: "map fst (abs_ps f ps) = map fst ps"
  by (induction ps) (auto simp: abs_ps_def)

lemma map_fst_abs_h [heap_simps]: "map fst (abs_h h) = map fst (hdict h)"
  by (simp add: abs_h_def case_prod_beta)

lemma mem_h_entries:
  "(u, ps) \<in> set d \<Longrightarrow> (t, a) \<in> set ps \<Longrightarrow> (u, t, a) \<in> set (h_entries d)"
  unfolding h_entries_def by (induction d) auto

lemma no_alias_D:
  assumes "no_alias d" "(u, ps) \<in> set d" "(t, a) \<in> set ps" "(u', ps') \<in> set d" "(t', a) \<in> set ps'"
  shows "u = u' \<and> t = t'"
proof -
  have "(u, t, a) \<in> set (h_entries d)" "(u', t', a) \<in> set (h_entries d)"
    using assms(2-5) by (simp_all add: mem_h_entries)
  then show ?thesis using assms(1) unfolding no_alias_def by fastforce
qed

lemma wf_h_lookup:
  assumes "wf_h h" "h_lookup h u t = Some a"
  obtains ps where "map_of (hdict h) u = Some ps" "map_of ps t = Some a"
    "(u, ps) \<in> set (hdict h)" "(t, a) \<in> set ps"
proof -
  obtain ps where "map_of (hdict h) u = Some ps" "map_of ps t = Some a"
    using assms(2) by (auto simp: h_lookup_def split: option.splits)
  then show ?thesis using that by (blast dest: map_of_SomeD)
qed

lemma abs_ps_objs_update:
  assumes "distinct (map fst ps)" "map_of ps t = Some a"
    and "\<And>t' . (t', a) \<in> set ps \<Longrightarrow> t' = t"
  shows "abs_ps (f(a \<mapsto> x)) ps = AList.update t x (abs_ps f ps)"
proof -
  have "(t, a) \<in> set ps" using assms(2) by (rule map_of_SomeD)
  then have "t \<in> set (map fst ps)" by force
  then have t: "t \<in> fst ` set (abs_ps f ps)" by (metis map_fst_abs_ps set_map)
  have "AList.update t x (abs_ps f ps) = map (\<lambda>p. if fst p = t then (t, x) else p) (abs_ps f ps)"
    using update_as_map [OF _ t] assms(1) by (simp add: map_fst_abs_ps)
  also have "\<dots> = abs_ps (f(a \<mapsto> x)) ps"
    unfolding abs_ps_def map_map
  proof (rule map_cong [OF refl])
    fix q assume q: "q \<in> set ps"
    obtain t' a' where q': "q = (t', a')" by fastforce
    show "((\<lambda>p. if fst p = t then (t, x) else p) \<circ> (\<lambda>(t, a). (t, the (f a)))) q =
          (\<lambda>(t, a'). (t, the ((f(a \<mapsto> x)) a'))) q"
    proof (cases "t' = t")
      case True
      then have "map_of ps t = Some a'" using map_of_is_SomeI [OF assms(1)] q q' by simp
      then have "a' = a" using assms(2) by simp
      then show ?thesis using True q' by simp
    next
      case False
      then have "a' \<noteq> a" using assms(3) q q' by blast
      then show ?thesis using False q' by simp
    qed
  qed
  finally show ?thesis ..
qed

lemma abs_h_objs_update:
  assumes "wf_h h" "h_lookup h u t = Some a"
  shows "abs_h (h\<lparr>objs := (objs h)(a \<mapsto> x)\<rparr>) =
           AList.update u (AList.update t x (user_tasks (abs_h h) u)) (abs_h h)"
proof -
  obtain ps where ps: "map_of (hdict h) u = Some ps" "map_of ps t = Some a"
    "(u, ps) \<in> set (hdict h)" "(t, a) \<in> set ps"
    using assms by (rule wf_h_lookup)
  have wf: "distinct (map fst (hdict h))" "distinct (map fst ps)" "no_alias (hdict h)"
    using assms(1) ps(3) by (auto simp: wf_h_def)
  have inner: "abs_ps ((objs h)(a \<mapsto> x)) ps = AList.update t x (abs_ps (objs h) ps)"
    using wf(2) ps(2) by (rule abs_ps_objs_update) (use no_alias_D [OF wf(3) ps(3) ps(4) ps(3)] in blast)
  have "u \<in> set (map fst (hdict h))" using ps(3) by force
  then have u: "u \<in> fst ` set (abs_h h)" by (metis map_fst_abs_h set_map)
  have "AList.update u (AList.update t x (user_tasks (abs_h h) u)) (abs_h h) =
        map (\<lambda>p. if fst p = u then (u, AList.update t x (abs_ps (objs h) ps)) else p) (abs_h h)"
    using update_as_map [OF _ u] wf(1) ps(1) by (simp add: map_fst_abs_h user_tasks_abs_h)
  also have "\<dots> = abs_h (h\<lparr>objs := (objs h)(a \<mapsto> x)\<rparr>)"
  proof -
    have hd: "hdict (h\<lparr>objs := (objs h)(a \<mapsto> x)\<rparr>) = hdict h"
      and ob: "objs (h\<lparr>objs := (objs h)(a \<mapsto> x)\<rparr>) = (objs h)(a \<mapsto> x)" by simp_all
    show ?thesis
    unfolding abs_h_def map_map hd ob
  proof (rule map_cong [OF refl])
    fix p assume p: "p \<in> set (hdict h)"
    obtain u' ps' where p': "p = (u', ps')" by fastforce
    show "((\<lambda>p. if fst p = u then (u, AList.update t x (abs_ps (objs h) ps)) else p) \<circ>
            (\<lambda>(u, ps). (u, abs_ps (objs h) ps))) p =
          (\<lambda>(u, ps). (u, abs_ps ((objs h)(a \<mapsto> x)) ps)) p"
    proof (cases "u' = u")
      case True
      then have "map_of (hdict h) u = Some ps'" using map_of_is_SomeI [OF wf(1)] p p' by simp
      then have "ps' = ps" using ps(1) by simp
      then show ?thesis using True p' inner by simp
    next
      case False
      have "a \<notin> snd ` set ps'"
      proof
        assume "a \<in> snd ` set ps'"
        then obtain t' where "(t', a) \<in> set ps'" by force
        then show False using False no_alias_D [OF wf(3) ps(3) ps(4)] p p' by blast
      qed
      then show ?thesis using False p' by (simp add: abs_ps_frame)
    qed
  qed
  qed
  finally show ?thesis ..
qed

section \<open>Refinement of the store operations\<close>

lemma set_h_entries:
  "set (h_entries d) = {(u, t, a). \<exists>ps. (u, ps) \<in> set d \<and> (t, a) \<in> set ps}"
  unfolding h_entries_def by (induction d) auto

lemma h_entries_update_sub:
  "set (h_entries (AList.update u ps d)) \<subseteq> (\<lambda>(t, a). (u, t, a)) ` set ps \<union> set (h_entries d)"
  using set_update_sub [of u ps d] unfolding set_h_entries by fastforce

lemma abs_h_objs_fresh:
  assumes "\<forall>e \<in> set (h_entries (hdict h)). snd (snd e) \<noteq> a"
  shows "map (\<lambda>(u, ps). (u, abs_ps ((objs h)(a := x)) ps)) (hdict h) = abs_h h"
  unfolding abs_h_def
proof (rule map_cong [OF refl])
  fix p assume p: "p \<in> set (hdict h)"
  obtain u ps where p': "p = (u, ps)" by fastforce
  have "a \<notin> snd ` set ps"
  proof
    assume "a \<in> snd ` set ps"
    then obtain t where "(t, a) \<in> set ps" by force
    then show False using assms mem_h_entries [of u ps "hdict h" t a] p p' by force
  qed
  then show "(\<lambda>(u, ps). (u, abs_ps ((objs h)(a := x)) ps)) p = (\<lambda>(u, ps). (u, abs_ps (objs h) ps)) p"
    using p' by (simp add: abs_ps_frame)
qed

lemma wf_h_fresh: "wf_h h \<Longrightarrow> \<forall>e \<in> set (h_entries (hdict h)). snd (snd e) \<noteq> next_addr h"
  unfolding wf_h_def by fastforce

lemma h_ensure_user_refine: "abs_h (h_ensure_user u h) = ensure_user u (abs_h h)"
  by (simp add: h_ensure_user_def ensure_user_def map_of_abs_h heap_simps)

lemma update_new: "map_of al k = None \<Longrightarrow> AList.update k v al = al @ [(k, v)]"
  by (induction al) (auto split: if_splits)

lemma h_ensure_user_entries: "set (h_entries (hdict (h_ensure_user u h))) = set (h_entries (hdict h))"
  by (auto simp: h_ensure_user_def set_h_entries update_new)

lemma abs_h_alloc:
  assumes fresh: "\<forall>e \<in> set (h_entries (hdict h)). snd (snd e) \<noteq> a"
    and ps: "map_of (hdict h) u = Some ps"
  shows "abs_h (h\<lparr>hdict := AList.update u (AList.update tid a ps) (hdict h),
                   objs := (objs h)(a \<mapsto> tk), next_addr := n\<rparr>) =
         AList.update u (AList.update tid tk (abs_ps (objs h) ps)) (abs_h h)"
proof -
  have "a \<notin> snd ` set ps"
  proof
    assume "a \<in> snd ` set ps"
    then obtain t where "(t, a) \<in> set ps" by force
    then show False using fresh mem_h_entries [OF map_of_SomeD [OF ps]] by force
  qed
  then have fr: "abs_ps ((objs h)(a \<mapsto> tk)) ps = abs_ps (objs h) ps" by (rule abs_ps_frame)
  have m: "map (\<lambda>(u, ps). (u, abs_ps ((objs h)(a \<mapsto> tk)) ps)) (hdict h) = abs_h h"
    using abs_h_objs_fresh [OF fresh, of "Some tk"] .
  have "abs_h (h\<lparr>hdict := AList.update u (AList.update tid a ps) (hdict h),
                   objs := (objs h)(a \<mapsto> tk), next_addr := n\<rparr>) =
        AList.update u (abs_ps ((objs h)(a \<mapsto> tk)) (AList.update tid a ps))
          (map (\<lambda>(u, ps). (u, abs_ps ((objs h)(a \<mapsto> tk)) ps)) (hdict h))"
    by (simp add: abs_h_def map_snd_update)
  also have "\<dots> = AList.update u (AList.update tid tk (abs_ps (objs h) ps)) (abs_h h)"
    unfolding m abs_ps_update fr by simp
  finally show ?thesis .
qed

lemma h_add_task_refine:
  assumes "wf_h h"
  shows "fst (h_add_task u nm dl c h) = fst (add_task u nm dl c (abs_h h)) \<and>
         abs_h (snd (h_add_task u nm dl c h)) = snd (add_task u nm dl c (abs_h h))"
proof -
  define h1 where "h1 = h_ensure_user u h"
  obtain ps where ps: "map_of (hdict h1) u = Some ps"
    unfolding h1_def h_ensure_user_def by (cases "map_of (hdict h) u") (simp_all add: update_conv')
  have fresh: "\<forall>e \<in> set (h_entries (hdict h1)). snd (snd e) \<noteq> next_addr h1"
    using wf_h_fresh [OF assms] h_ensure_user_entries [of u h]
    by (simp add: h1_def h_ensure_user_def)
  have st1: "ensure_user u (abs_h h) = abs_h h1"
    by (simp add: h1_def h_ensure_user_refine)
  have ut: "user_tasks (abs_h h1) u = abs_ps (objs h1) ps"
    using ps by (simp add: user_tasks_abs_h)
  show ?thesis
    using abs_h_alloc [OF fresh ps] st1 ut ps
    by (simp add: h_add_task_def add_task_def Let_def h1_def [symmetric] ensure_user_def [symmetric]
        length_abs_ps)
qed

lemma h_modify_refine:
  assumes "wf_h h"
  shows "map_option abs_h (h_modify_task u t f h) = modify_task u t f (abs_h h)"
proof (cases "h_lookup h u t")
  case None
  then show ?thesis
    by (cases "map_of (hdict h) u")
      (simp_all add: h_modify_task_def modify_task_def h_lookup_def map_of_abs_h map_of_abs_ps)
next
  case (Some a)
  obtain ps where ps: "map_of (hdict h) u = Some ps" "map_of ps t = Some a"
    using assms Some by (rule wf_h_lookup)
  show ?thesis
    using abs_h_objs_update [OF assms Some] Some ps
    by (simp add: h_modify_task_def modify_task_def map_of_abs_h map_of_abs_ps user_tasks_abs_h)
qed

lemma h_delete_refine: "map_option abs_h (h_delete_task u t h) = delete_task u t (abs_h h)"
  by (simp add: h_delete_task_def delete_task_def find_task_abs_h h_lookup_def user_tasks_abs_h
      abs_h_update_dict abs_ps_delete split: option.splits)

lemma wf_h_objs:
  "wf_h h \<Longrightarrow> h_lookup h u t = Some a \<Longrightarrow> objs h a \<noteq> None \<and> a < next_addr h"
proof -
  assume wf: "wf_h h" and l: "h_lookup h u t = Some a"
  obtain ps where "(u, ps) \<in> set (hdict h)" "(t, a) \<in> set ps"
    using wf l by (rule wf_h_lookup)
  then have "(u, t, a) \<in> set (h_entries (hdict h))" by (rule mem_h_entries)
  then show ?thesis using wf unfolding wf_h_def by fastforce
qed

lemma h_append_as_modify:
  assumes "wf_h h" "h_lookup h u t = Some a"
  shows "h_modify_task u t (\<lambda>tk. tk\<lparr>reminded_at := reminded_at tk @ [stamp]\<rparr>) h = Some (h_append a stamp h)"
  using wf_h_objs [OF assms] assms(2)
  by (auto simp: h_modify_task_def h_append_def)

lemma h_append_refine:
  assumes "wf_h h" "h_lookup h u t = Some a"
  shows "abs_h (h_append a stamp h) = record_reminder u t stamp (abs_h h)"
proof -
  have "modify_task u t (\<lambda>tk. tk\<lparr>reminded_at := reminded_at tk @ [stamp]\<rparr>) (abs_h h) =
        Some (abs_h (h_append a stamp h))"
    using h_modify_refine [OF assms(1), of u t "\<lambda>tk. tk\<lparr>reminded_at := reminded_at tk @ [stamp]\<rparr>"]
      h_append_as_modify [OF assms, of stamp] by simp
  then show ?thesis by (simp add: record_reminder_def)
qed

lemma h_apply_op_refine:
  assumes "wf_h h"
  shows "abs_h (h_apply_op op h) = apply_op op (abs_h h)"
proof (cases op)
  case (OpAdd u nm dl c)
  then show ?thesis using h_add_task_refine [OF assms] by simp
next
  case (OpToggle u t)
  then show ?thesis using h_modify_refine [OF assms, of u t "\<lambda>tk. tk\<lparr>completed := \<not> completed tk\<rparr>", symmetric]
    by (cases "h_modify_task u t (\<lambda>tk. tk\<lparr>completed := \<not> completed tk\<rparr>) h") (simp_all add: toggle_task_def)
next
  case (OpRename u t nm)
  then show ?thesis using h_modify_refine [OF assms, of u t "\<lambda>tk. tk\<lparr>name := Some nm\<rparr>", symmetric]
    by (cases "h_modify_task u t (\<lambda>tk. tk\<lparr>name := Some nm\<rparr>) h") (simp_all add: rename_task_def)
next
  case (OpDelete u t)
  then show ?thesis using h_delete_refine [of u t h, symmetric]
    by (cases "h_delete_task u t h") simp_all
next
  case (OpSetDeadline u t dl)
  show ?thesis
  proof (cases t)
    case (Some tid)
    then show ?thesis using OpSetDeadline h_modify_refine [OF assms, of u tid "\<lambda>tk. tk\<lparr>deadline := dl\<rparr>", symmetric]
      by (cases "h_modify_task u tid (\<lambda>tk. tk\<lparr>deadline := dl\<rparr>) h") (simp_all add: set_deadline_def)
  qed (simp add: OpSetDeadline set_deadline_def)
qed (simp add: h_ensure_user_refine)

section \<open>Well-formedness of the heap store\<close>

lemma no_alias_sub:
  "no_alias d \<Longrightarrow> set (h_entries d') \<subseteq> set (h_entries d) \<Longrightarrow> no_alias d'"
  unfolding no_alias_def by blast

lemma no_alias_insert:
  assumes "no_alias d" "set (h_entries d') \<subseteq> insert e0 (set (h_entries d))"
    and "\<forall>e \<in> set (h_entries d). snd (snd e) \<noteq> snd (snd e0)"
  shows "no_alias d'"
  using assms unfolding no_alias_def by (metis insert_iff subsetD)

lemma inner_distinct_update:
  assumes "\<forall>p \<in> set d. distinct (map fst (snd p))" "distinct (map fst ps)"
  shows "\<forall>p \<in> set (AList.update u ps d). distinct (map fst (snd p))"
  using assms set_update_sub [of u ps d] by auto

lemma wf_h_ensure_user:
  assumes wf: "wf_h h"
  shows "wf_h (h_ensure_user u h)"
proof -
  have e: "set (h_entries (hdict (h_ensure_user u h))) = set (h_entries (hdict h))"
    by (rule h_ensure_user_entries)
  have o: "objs (h_ensure_user u h) = objs h" "next_addr (h_ensure_user u h) = next_addr h"
    by (simp_all add: h_ensure_user_def)
  have "distinct (map fst (hdict (h_ensure_user u h)))"
    using wf by (simp add: wf_h_def h_ensure_user_def AList.distinct_update)
  moreover have "\<forall>p \<in> set (hdict (h_ensure_user u h)). distinct (map fst (snd p))"
    using wf inner_distinct_update [of "hdict h" "[]" u] by (simp add: wf_h_def h_ensure_user_def)
  moreover have "no_alias (hdict (h_ensure_user u h))"
    using wf e no_alias_sub [of "hdict h" "hdict (h_ensure_user u h)"] by (simp add: wf_h_def)
  ultimately show ?thesis using wf unfolding wf_h_def e o by blast
qed

lemma wf_h_alloc:
  assumes wf: "wf_h h" and ps: "map_of (hdict h) u = Some ps"
  shows "wf_h (h\<lparr>hdict := AList.update u (AList.update tid (next_addr h) ps) (hdict h),
                  objs := (objs h)(next_addr h \<mapsto> tk), next_addr := Suc (next_addr h)\<rparr>)"
proof -
  let ?a = "next_addr h"
  let ?d = "AList.update u (AList.update tid ?a ps) (hdict h)"
  have inps: "(u, ps) \<in> set (hdict h)" using ps by (rule map_of_SomeD)
  have dps: "distinct (map fst ps)" using wf inps by (auto simp: wf_h_def)
  have sub: "set (h_entries ?d) \<subseteq> insert (u, tid, ?a) (set (h_entries (hdict h)))"
  proof
    fix e assume "e \<in> set (h_entries ?d)"
    then consider "e \<in> (\<lambda>(t, a). (u, t, a)) ` set (AList.update tid ?a ps)" | "e \<in> set (h_entries (hdict h))"
      using h_entries_update_sub by blast
    then show "e \<in> insert (u, tid, ?a) (set (h_entries (hdict h)))"
    proof cases
      case 1
      then obtain t' a' where e: "e = (u, t', a')" "(t', a') \<in> set (AList.update tid ?a ps)" by auto
      then have "(t', a') = (tid, ?a) \<or> (t', a') \<in> set ps" using set_update_sub [of tid ?a ps] by blast
      then show ?thesis using e(1) mem_h_entries [OF inps, of t' a'] by blast
    qed simp
  qed
  have fresh: "\<forall>e \<in> set (h_entries (hdict h)). snd (snd e) \<noteq> ?a" by (rule wf_h_fresh [OF wf])
  have alloc: "\<forall>e \<in> set (h_entries (hdict h)). snd (snd e) < ?a \<and> objs h (snd (snd e)) \<noteq> None"
    using wf by (simp add: wf_h_def)
  have "distinct (map fst ?d)" using wf by (simp add: wf_h_def AList.distinct_update)
  moreover have "\<forall>p \<in> set ?d. distinct (map fst (snd p))"
    using wf dps by (intro inner_distinct_update) (simp_all add: wf_h_def AList.distinct_update)
  moreover have "\<forall>e \<in> set (h_entries ?d). snd (snd e) < Suc ?a \<and> ((objs h)(?a \<mapsto> tk)) (snd (snd e)) \<noteq> None"
  proof
    fix e assume "e \<in> set (h_entries ?d)"
    then consider "e = (u, tid, ?a)" | "e \<in> set (h_entries (hdict h))" using sub by blast
    then show "snd (snd e) < Suc ?a \<and> ((objs h)(?a \<mapsto> tk)) (snd (snd e)) \<noteq> None"
    proof cases
      case 2
      then have "snd (snd e) < ?a" "objs h (snd (snd e)) \<noteq> None" "snd (snd e) \<noteq> ?a"
        using alloc fresh by blast+
      then show ?thesis by simp
    qed simp
  qed
  moreover have "no_alias ?d"
  proof -
    have "no_alias (hdict h)" using wf by (simp add: wf_h_def)
    then show ?thesis using no_alias_insert sub fresh by fastforce
  qed
  ultimately show ?thesis by (simp add: wf_h_def)
qed

lemma wf_h_add_task: "wf_h h \<Longrightarrow> wf_h (snd (h_add_task u nm dl c h))"
proof -
  assume wf: "wf_h h"
  define h1 where "h1 = h_ensure_user u h"
  obtain ps where ps: "map_of (hdict h1) u = Some ps"
    unfolding h1_def h_ensure_user_def by (cases "map_of (hdict h) u") (simp_all add: update_conv')
  have "wf_h h1" unfolding h1_def using wf by (rule wf_h_ensure_user)
  then show ?thesis
    using wf_h_alloc [OF _ ps] ps by (simp add: h_add_task_def Let_def h1_def [symmetric])
qed

lemma wf_h_objs_update:
  assumes wf: "wf_h h" and x: "x \<noteq> None"
  shows "wf_h (h\<lparr>objs := (objs h)(a := x)\<rparr>)"
proof -
  have "\<forall>e \<in> set (h_entries (hdict h)). snd (snd e) < next_addr h \<and> ((objs h)(a := x)) (snd (snd e)) \<noteq> None"
  proof
    fix e assume e: "e \<in> set (h_entries (hdict h))"
    then have "snd (snd e) < next_addr h" "objs h (snd (snd e)) \<noteq> None"
      using wf unfolding wf_h_def by blast+
    then show "snd (snd e) < next_addr h \<and> ((objs h)(a := x)) (snd (snd e)) \<noteq> None"
      using x by (cases "snd (snd e) = a") simp_all
  qed
  moreover have sel: "hdict (h\<lparr>objs := (objs h)(a := x)\<rparr>) = hdict h"
    "next_addr (h\<lparr>objs := (objs h)(a := x)\<rparr>) = next_addr h"
    "objs (h\<lparr>objs := (objs h)(a := x)\<rparr>) = (objs h)(a := x)" by simp_all
  ultimately show ?thesis using wf unfolding wf_h_def sel by blast
qed

lemma wf_h_modify:
  assumes "wf_h h" "h_modify_task u t f h = Some h'"
  shows "wf_h h'"
proof (cases "h_lookup h u t")
  case (Some a)
  then show ?thesis
    using assms wf_h_objs_update [OF assms(1), of "Some (f (the (objs h a)))" a]
    by (simp add: h_modify_task_def)
qed (use assms in \<open>simp add: h_modify_task_def\<close>)

lemma wf_h_append: "wf_h h \<Longrightarrow> wf_h (h_append a stamp h)"
  unfolding h_append_def
  by (cases "objs h a") (simp_all add: wf_h_objs_update [of h "Some _", simplified] fun_upd_idem)

lemma wf_h_delete: "wf_h h \<Longrightarrow> h_delete_task u t h = Some h' \<Longrightarrow> wf_h h'"
proof -
  assume wf: "wf_h h" and d: "h_delete_task u t h = Some h'"
  then obtain ps where ps: "map_of (hdict h) u = Some ps"
    and h': "h' = h\<lparr>hdict := AList.update u (AList.delete t ps) (hdict h)\<rparr>"
    by (auto simp: h_delete_task_def split: option.splits)
  have inps: "(u, ps) \<in> set (hdict h)" using ps by (rule map_of_SomeD)
  have sub: "set (h_entries (AList.update u (AList.delete t ps) (hdict h))) \<subseteq> set (h_entries (hdict h))"
  proof
    fix e assume "e \<in> set (h_entries (AList.update u (AList.delete t ps) (hdict h)))"
    then consider "e \<in> (\<lambda>(t, a). (u, t, a)) ` set (AList.delete t ps)" | "e \<in> set (h_entries (hdict h))"
      using h_entries_update_sub by blast
    then show "e \<in> set (h_entries (hdict h))"
    proof cases
      case 1
      then obtain t' a' where e: "e = (u, t', a')" "(t', a') \<in> set (AList.delete t ps)" by auto
      then show ?thesis using set_delete_sub [of t ps] mem_h_entries [OF inps, of t' a'] by blast
    qed simp
  qed
  let ?d = "AList.update u (AList.delete t ps) (hdict h)"
  have "distinct (map fst ps)" using wf inps by (auto simp: wf_h_def)
  then have "\<forall>p \<in> set ?d. distinct (map fst (snd p))"
    using wf by (intro inner_distinct_update) (simp_all add: wf_h_def AList.distinct_delete)
  moreover have "distinct (map fst ?d)" using wf by (simp add: wf_h_def AList.distinct_update)
  moreover have "\<forall>e \<in> set (h_entries ?d). snd (snd e) < next_addr h \<and> objs h (snd (snd e)) \<noteq> None"
    using sub wf unfolding wf_h_def by blast
  moreover have "no_alias ?d" using wf sub unfolding wf_h_def by (blast intro: no_alias_sub)
  ultimately show ?thesis unfolding h' by (simp add: wf_h_def)
qed

lemma wf_h_apply_op:
  assumes wf: "wf_h h"
  shows "wf_h (h_apply_op op h)"
proof (cases op)
  case (OpToggle u t)
  then show ?thesis
    by (cases "h_modify_task u t (\<lambda>tk. tk\<lparr>completed := \<not> completed tk\<rparr>) h") (simp_all add: wf_h_modify [OF wf] wf)
next
  case (OpRename u t nm)
  then show ?thesis
    by (cases "h_modify_task u t (\<lambda>tk. tk\<lparr>name := Some nm\<rparr>) h") (simp_all add: wf_h_modify [OF wf] wf)
next
  case (OpDelete u t)
  then show ?thesis by (cases "h_delete_task u t h") (simp_all add: wf_h_delete [OF wf] wf)
next
  case (OpSetDeadline u t dl)
  then show ?thesis
    by (cases t; cases "h_modify_task u (the t) (\<lambda>tk. tk\<lparr>deadline := dl\<rparr>) h") (simp_all add: wf_h_modify [OF wf] wf)
qed (simp_all add: wf_h_ensure_user wf_h_add_task wf)

section \<open>The interleaved pass\<close>

lemma h_await_Nil [simp]: "h_await [] h = ([], h)"
  by (simp add: h_await_def)

lemma h_scan_users_total: "\<exists>r. h_scan_users env n i sched h = Some r"
proof (induction "n - i" arbitrary: i sched h)
  case 0
  then show ?case by (simp add: h_scan_users.simps)
next
  case (Suc k)
  show ?case
  proof (cases "h_scan_tasks env (fst (hdict h ! i)) (snd (hdict h ! i)) sched h")
    case (fields r sched1 h1 ns1)
    have "k = n - Suc i" using Suc.hyps(2) by arith
    then obtain r' where "h_scan_users env n (Suc i) sched1 h1 = Some r'"
      using Suc.hyps(1) by blast
    then show ?thesis using fields
      by (cases r) (auto simp: h_scan_users.simps [of env n i] split: prod.splits)
  qed
qed

lemma h_lookup_hdict: "hdict h' = hdict h \<Longrightarrow> h_lookup h' = h_lookup h"
  by (simp add: h_lookup_def fun_eq_iff)

lemma abs_ps_agree: "\<forall>a \<in> snd ` set ps. f a = g a \<Longrightarrow> abs_ps f ps = abs_ps g ps"
  by (auto simp: abs_ps_def)

lemma h_append_frame [heap_simps]:
  "hdict (h_append a s h) = hdict h" "next_addr (h_append a s h) = next_addr h"
  "a' \<noteq> a \<Longrightarrow> objs (h_append a s h) a' = objs h a'"
  by (simp_all add: h_append_def)

lemma h_check_task_atomic:
  assumes wf: "wf_h h" and l: "h_lookup h u t = Some a"
  shows "case h_check_task env u (t, a) [] h of (r, s', h', ns) \<Rightarrow>
           s' = [] \<and> hdict h' = hdict h \<and> wf_h h' \<and> (\<forall>a'. a' \<noteq> a \<longrightarrow> objs h' a' = objs h a') \<and>
           check_task env u (t, the (objs h a)) (abs_h h) = (r, abs_h h', ns)"
proof -
  have f: "find_task (abs_h h) u t = Some (the (objs h a))" by (simp add: find_task_abs_h l)
  have app: "abs_h (h_append a s h) = record_reminder u t s (abs_h h)" for s
    by (rule h_append_refine [OF wf l])
  have wa: "wf_h (h_append a s h)" for s by (rule wf_h_append [OF wf])
  have send: "case h_send_reminder env u t d [] h of (r, s', h', ns) \<Rightarrow>
           s' = [] \<and> hdict h' = hdict h \<and> wf_h h' \<and> (\<forall>a'. a' \<noteq> a \<longrightarrow> objs h' a' = objs h a') \<and>
           send_reminder env u t d (abs_h h) = (r, abs_h h', ns)" for d
  proof (cases "completed (the (objs h a))")
    case False
    then show ?thesis
      using wf wa
      by (cases "reminder_kind_of d") (simp_all add: h_send_reminder_def send_reminder_def l f app h_append_frame)
  qed (simp add: h_send_reminder_def send_reminder_def l f wf)
  show ?thesis
  proof (cases "completed (the (objs h a))")
    case False
    show ?thesis
    proof (cases "deadline (the (objs h a))")
      case (Some s)
      show ?thesis
      proof (cases "parse_deadline s")
        case (Some dl)
        then show ?thesis using False \<open>deadline (the (objs h a)) = Some s\<close> send [of "dt_sub dl (now env)"] wf
          by (cases "scan_branch (now env) (dt_sub dl (now env)) (reminded_at (the (objs h a)))")
            (simp_all add: h_check_task_def check_task_def Let_def)
      qed (use False Some wf in \<open>simp add: h_check_task_def check_task_def\<close>)
    qed (use False wf in \<open>simp add: h_check_task_def check_task_def\<close>)
  qed (use wf in \<open>simp add: h_check_task_def check_task_def\<close>)
qed

lemma distinct_snd_of_fst:
  "distinct (map fst ps) \<Longrightarrow> (\<forall>x \<in> set ps. \<forall>y \<in> set ps. snd x = snd y \<longrightarrow> fst x = fst y) \<Longrightarrow>
   distinct (map snd ps)"
proof (induction ps)
  case (Cons p ps)
  have "snd p \<notin> snd ` set ps"
  proof
    assume "snd p \<in> snd ` set ps"
    then obtain q where q: "q \<in> set ps" "snd q = snd p" by auto
    have "q \<in> set (p # ps)" "p \<in> set (p # ps)" using q(1) by simp_all
    then have "fst q = fst p" using Cons.prems(2) q(2) by blast
    then have "fst p \<in> fst ` set ps" using q(1) by (metis rev_image_eqI)
    then show False using Cons.prems(1) by simp
  qed
  moreover have "distinct (map snd ps)"
  proof (rule Cons.IH)
    show "distinct (map fst ps)" using Cons.prems(1) by simp
    show "\<forall>x \<in> set ps. \<forall>y \<in> set ps. snd x = snd y \<longrightarrow> fst x = fst y"
      using Cons.prems(2) by (meson set_subset_Cons subsetD)
  qed
  ultimately show ?case by simp
qed simp

lemma h_scan_tasks_atomic:
  assumes "wf_h h" "\<forall>p \<in> set ps. h_lookup h u (fst p) = Some (snd p)" "distinct (map snd ps)"
  shows "case h_scan_tasks env u ps [] h of (r, s', h', ns) \<Rightarrow>
           s' = [] \<and> hdict h' = hdict h \<and> wf_h h' \<and>
           scan_tasks env u (abs_ps (objs h) ps) (abs_h h) = (r, abs_h h', ns)"
  using assms
proof (induction ps arbitrary: h)
  case Nil
  then show ?case by (simp add: abs_ps_def)
next
  case (Cons p ps)
  obtain t a where p: "p = (t, a)" by fastforce
  have l: "h_lookup h u t = Some a" using Cons.prems(2) p by simp
  obtain r1 s1 h1 ns1 where c: "h_check_task env u (t, a) [] h = (r1, s1, h1, ns1)"
    by (cases "h_check_task env u (t, a) [] h") auto
  have c1: "s1 = []" "hdict h1 = hdict h" "wf_h h1" "\<forall>a'. a' \<noteq> a \<longrightarrow> objs h1 a' = objs h a'"
    "check_task env u (t, the (objs h a)) (abs_h h) = (r1, abs_h h1, ns1)"
    using h_check_task_atomic [OF Cons.prems(1) l, of env] c by simp_all
  have ps: "abs_ps (objs h1) ps = abs_ps (objs h) ps"
    using c1(4) Cons.prems(3) p by (intro abs_ps_agree) auto
  have abs: "abs_ps (objs h) (p # ps) = (t, the (objs h a)) # abs_ps (objs h) ps"
    by (simp add: abs_ps_def p)
  show ?case
  proof (cases r1)
    case None
    have "\<forall>p \<in> set ps. h_lookup h1 u (fst p) = Some (snd p)"
      using Cons.prems(2) h_lookup_hdict [OF c1(2)] by simp
    then have ih: "case h_scan_tasks env u ps [] h1 of (r, s', h', ns) \<Rightarrow>
           s' = [] \<and> hdict h' = hdict h1 \<and> wf_h h' \<and>
           scan_tasks env u (abs_ps (objs h1) ps) (abs_h h1) = (r, abs_h h', ns)"
      using Cons.IH c1(3) Cons.prems(3) by simp
    then show ?thesis using None c c1 p abs ps
      by (auto split: prod.splits)
  qed (use c c1 p abs in simp)
qed

lemma wf_h_user_entry:
  assumes wf: "wf_h h" and i: "i < length (hdict h)"
  shows "map_of (hdict h) (fst (hdict h ! i)) = Some (snd (hdict h ! i))"
    and "\<forall>p \<in> set (snd (hdict h ! i)). h_lookup h (fst (hdict h ! i)) (fst p) = Some (snd p)"
    and "distinct (map snd (snd (hdict h ! i)))"
proof -
  let ?u = "fst (hdict h ! i)" and ?ps = "snd (hdict h ! i)"
  have mem: "(?u, ?ps) \<in> set (hdict h)" using i by simp
  have inner: "\<forall>p \<in> set (hdict h). distinct (map fst (snd p))" using wf by (simp add: wf_h_def)
  have d: "distinct (map fst (hdict h))" "distinct (map fst ?ps)" "no_alias (hdict h)"
    using wf bspec [OF inner mem] by (simp_all add: wf_h_def)
  show mo: "map_of (hdict h) ?u = Some ?ps" using map_of_is_SomeI [OF d(1) mem] .
  show "\<forall>p \<in> set ?ps. h_lookup h ?u (fst p) = Some (snd p)"
    using map_of_is_SomeI [OF d(2)] by (simp add: h_lookup_def mo)
  have "\<forall>x \<in> set ?ps. \<forall>y \<in> set ?ps. snd x = snd y \<longrightarrow> fst x = fst y"
  proof (intro ballI impI)
    fix x y assume xy: "x \<in> set ?ps" "y \<in> set ?ps" "snd x = snd y"
    have "(fst x, snd y) \<in> set ?ps" using xy(1,3) by (metis prod.collapse)
    moreover have "(fst y, snd y) \<in> set ?ps" using xy(2) by simp
    ultimately show "fst x = fst y" using no_alias_D [OF d(3) mem _ mem] by blast
  qed
  then show "distinct (map snd ?ps)" using d(2) by (rule distinct_snd_of_fst [rotated])
qed

lemma h_scan_users_atomic:
  assumes "wf_h h" "n = length (hdict h)"
  shows "case scan_users env (drop i (map fst (hdict h))) (abs_h h) of (r, st', ns) \<Rightarrow>
           \<exists>h'. h_scan_users env n i [] h = Some (r, [], h', ns) \<and> abs_h h' = st'"
  using assms
proof (induction "n - i" arbitrary: i h)
  case 0
  then show ?case by (simp add: h_scan_users.simps)
next
  case (Suc k)
  let ?u = "fst (hdict h ! i)" and ?ps = "snd (hdict h ! i)"
  have i: "i < length (hdict h)" using Suc.hyps(2) Suc.prems(2) by arith
  have dr: "drop i (map fst (hdict h)) = ?u # drop (Suc i) (map fst (hdict h))"
    using i by (simp add: Cons_nth_drop_Suc [symmetric])
  have ut: "user_tasks (abs_h h) ?u = abs_ps (objs h) ?ps"
    using wf_h_user_entry(1) [OF Suc.prems(1) i] by (simp add: user_tasks_abs_h)
  obtain r1 s1 h1 ns1 where c: "h_scan_tasks env ?u ?ps [] h = (r1, s1, h1, ns1)"
    by (cases "h_scan_tasks env ?u ?ps [] h") auto
  have c1: "s1 = []" "hdict h1 = hdict h" "wf_h h1"
    "scan_tasks env ?u (abs_ps (objs h) ?ps) (abs_h h) = (r1, abs_h h1, ns1)"
    using h_scan_tasks_atomic [OF Suc.prems(1) wf_h_user_entry(2,3) [OF Suc.prems(1) i], of env] c
    by simp_all
  have run: "h_scan_users env n i [] h =
      (case (r1, s1, h1, ns1) of
         (Some e, sched1, h1, ns1) \<Rightarrow> Some (Some e, sched1, h1, ns1)
       | (None, sched1, h1, ns1) \<Rightarrow>
           Option.bind (h_scan_users env n (Suc i) sched1 h1)
             (\<lambda>(r, sched2, h2, ns2). Some (r, sched2, h2, ns1 @ ns2)))"
    using i Suc.prems(2) c by (intro trans [OF h_scan_users.simps]) simp
  show ?case
  proof (cases r1)
    case None
    have kk: "k = n - Suc i" using Suc.hyps(2) by arith
    have n1: "n = length (hdict h1)" using Suc.prems(2) c1(2) by simp
    have ih: "case scan_users env (drop (Suc i) (map fst (hdict h1))) (abs_h h1) of (r, st', ns) \<Rightarrow>
           \<exists>h'. h_scan_users env n (Suc i) [] h1 = Some (r, [], h', ns) \<and> abs_h h' = st'"
      by (rule Suc.hyps(1) [OF kk c1(3) n1])
    show ?thesis using ih None run c1(1,2,4) dr ut by (auto split: prod.splits)
  qed (use run c1 dr ut in simp)
qed

lemma wf_h_fold: "wf_h h \<Longrightarrow> wf_h (fold h_apply_op ops h)"
  by (induction ops arbitrary: h) (simp_all add: wf_h_apply_op)

lemma wf_h_await: "wf_h h \<Longrightarrow> wf_h (snd (h_await sched h))"
  by (simp add: h_await_def wf_h_fold split: list.split)

lemma wf_h_send:
  "wf_h h \<Longrightarrow> h_send_reminder env u t d sched h = (r, s', h', ns) \<Longrightarrow> wf_h h'"
  using wf_h_await [of h sched]
  by (auto simp: h_send_reminder_def wf_h_append split: option.splits if_splits prod.splits)

lemma wf_h_check:
  "wf_h h \<Longrightarrow> h_check_task env u p sched h = (r, s', h', ns) \<Longrightarrow> wf_h h'"
  by (auto simp: h_check_task_def Let_def split: option.splits if_splits intro: wf_h_send)

lemma send_not_runtime: "h_send_reminder env u t d sched h = (r, s', h', ns) \<Longrightarrow> r \<noteq> Some RuntimeError"
  by (auto simp: h_send_reminder_def split: option.splits if_splits prod.splits)

lemma check_not_runtime: "h_check_task env u p sched h = (r, s', h', ns) \<Longrightarrow> r \<noteq> Some RuntimeError"
  by (auto simp: h_check_task_def Let_def split: option.splits if_splits dest: send_not_runtime)

lemma h_scan_tasks_props:
  "h_scan_tasks env u ps sched h = (r, s', h', ns) \<Longrightarrow>
     (wf_h h \<longrightarrow> wf_h h') \<and> r \<noteq> Some RuntimeError"
proof (induction ps arbitrary: sched h r s' h' ns)
  case (Cons p ps)
  obtain r1 s1 h1 ns1 where c: "h_check_task env u p sched h = (r1, s1, h1, ns1)"
    by (cases "h_check_task env u p sched h") auto
  have c1: "wf_h h \<longrightarrow> wf_h h1" "r1 \<noteq> Some RuntimeError"
    using c wf_h_check check_not_runtime by blast+
  show ?case
  proof (cases r1)
    case None
    obtain r2 s2 h2 ns2 where c2: "h_scan_tasks env u ps s1 h1 = (r2, s2, h2, ns2)"
      by (cases "h_scan_tasks env u ps s1 h1") auto
    then show ?thesis using Cons.IH [OF c2] Cons.prems c None c1 by auto
  qed (use Cons.prems c c1 in auto)
qed simp

lemma h_scan_users_props:
  "h_scan_users env n i sched h = Some (r, s', h', ns) \<Longrightarrow>
     (wf_h h \<longrightarrow> wf_h h') \<and> (r = None \<longrightarrow> length (hdict h') = n) \<and>
     (r = Some RuntimeError \<longrightarrow> length (hdict h') \<noteq> n)"
proof (induction "n - i" arbitrary: i sched h r s' h' ns)
  case 0
  then show ?case by (auto simp: h_scan_users.simps [of env n i] split: if_splits)
next
  case (Suc k)
  show ?case
  proof (cases "length (hdict h) = n")
    case True
    have i: "i < n" using Suc.hyps(2) by arith
    obtain r1 s1 h1 ns1 where c: "h_scan_tasks env (fst (hdict h ! i)) (snd (hdict h ! i)) sched h = (r1, s1, h1, ns1)"
      by (cases "h_scan_tasks env (fst (hdict h ! i)) (snd (hdict h ! i)) sched h") auto
    have c1: "wf_h h \<longrightarrow> wf_h h1" "r1 \<noteq> Some RuntimeError" using h_scan_tasks_props [OF c] by blast+
    have kk: "k = n - Suc i" using Suc.hyps(2) by arith
    show ?thesis
    proof (cases r1)
      case None
      then obtain r2 s2 h2 ns2 where rec: "h_scan_users env n (Suc i) s1 h1 = Some (r2, s2, h2, ns2)"
        and res: "(r, s', h', ns) = (r2, s2, h2, ns1 @ ns2)"
        using Suc.prems True i c by (auto simp: h_scan_users.simps [of env n i] split: Option.bind_splits)
      then show ?thesis using Suc.hyps(1) [OF kk rec] c1 by auto
    next
      case (Some e)
      then show ?thesis using Suc.prems True i c c1 by (auto simp: h_scan_users.simps [of env n i])
    qed
  qed (use Suc.prems in \<open>auto simp: h_scan_users.simps [of env n i]\<close>)
qed

lemma h_scan_users_size:
  "length (hdict h) \<noteq> n \<Longrightarrow> h_scan_users env n i sched h = Some (Some RuntimeError, sched, h, [])"
  by (simp add: h_scan_users.simps)

lemma h_scan_users_done:
  "length (hdict h) = n \<Longrightarrow> n \<le> i \<Longrightarrow> h_scan_users env n i sched h = Some (None, sched, h, [])"
  by (simp add: h_scan_users.simps)

lemma h_scan_users_next:
  "length (hdict h) = n \<Longrightarrow> i < n \<Longrightarrow> h_scan_users env n i sched h =
     (case h_scan_tasks env (fst (hdict h ! i)) (snd (hdict h ! i)) sched h of
        (Some e, sched1, h1, ns1) \<Rightarrow> Some (Some e, sched1, h1, ns1)
      | (None, sched1, h1, ns1) \<Rightarrow>
          Option.bind (h_scan_users env n (Suc i) sched1 h1)
            (\<lambda>(r, sched2, h2, ns2). Some (r, sched2, h2, ns1 @ ns2)))"
  by (intro trans [OF h_scan_users.simps]) simp

lemmas h_scan_eval = h_scan_pass_def h_scan_users_size h_scan_users_done h_scan_users_next
  h_check_task_def h_send_reminder_def h_await_def h_add_task_def h_ensure_user_def h_lookup_def
  h_append_def h_modify_task_def h_delete_task_def demo_heap_def report_task_def slides_task_def
  abs_h_def abs_ps_def find_task_def
  scan_branch_def reminder_kind_of_def new_task_def clock_def demo_env_def
  datetime_eval strptime_eval Let_def

section \<open>Properties of the interleaved pass\<close>

text \<open>A pass always returns, whatever the handlers do during its awaits, even when they
  add users: the dict iterator's size check bounds the loop by the number of users the dict
  had when the loop began.\<close>

lemma h_scan_pass_terminates: "\<exists>r. h_scan_pass env sched h = Some r"
  unfolding h_scan_pass_def by (rule h_scan_users_total)

text \<open>C31. A pass that ends normally or on \<^verbatim>\<open>RuntimeError\<close> ends on
  \<^verbatim>\<open>RuntimeError\<close> exactly when the handlers that ran during its sends changed the
  number of users, i.e. created a user's first task; the exception ends
  \<^verbatim>\<open>check_deadlines\<close> like any other.\<close>

theorem h_scan_pass_runtime_error:
  assumes "h_scan_pass env sched h = Some (r, sched', h', ns)" and "r = None \<or> r = Some RuntimeError"
  shows "r = Some RuntimeError \<longleftrightarrow> length (hdict h') \<noteq> length (hdict h)"
  using h_scan_users_props [OF assms(1) [unfolded h_scan_pass_def]] assms(2) by auto

theorem h_scan_pass_runtime_error_witness:
  "\<exists>h'. h_scan_pass (demo_env (clock 2030 1 1 9 0 0 0) (clock 2030 1 1 9 0 1 0))
      [[OpAdd 2 (Some ''Slides'') (Some ''02.01.2030 10:00'') ''01.01.2030 09:00'']] demo_heap =
    Some (Some RuntimeError, [], h', [(1, ''1'', Due1h)]) \<and> length (hdict h') \<noteq> length (hdict demo_heap)"
proof -
  obtain h' where run: "h_scan_pass (demo_env (clock 2030 1 1 9 0 0 0) (clock 2030 1 1 9 0 1 0))
      [[OpAdd 2 (Some ''Slides'') (Some ''02.01.2030 10:00'') ''01.01.2030 09:00'']] demo_heap =
    Some (Some RuntimeError, [], h', [(1, ''1'', Due1h)])"
    by (auto simp: h_scan_eval)
  show ?thesis using h_scan_pass_runtime_error [OF run] run by auto
qed

text \<open>C32. The snapshot holds the task objects but \<^verbatim>\<open>send_reminder\<close> looks the task
  up again by id: for an entry \<open>(t, a)\<close> of the snapshot, the window and the message are
  chosen from the snapshot's object \<open>a\<close>, while the firing record goes to whatever object
  the id \<open>t\<close> names when the send starts, which after a delete and an \<^verbatim>\<open>add\<close> that
  reused the id is a different task, with a deadline of its own that is never consulted;
  the snapshot's object gets no record.\<close>

theorem h_check_task_stale_reference:
  assumes "objs h a = Some tk" and "\<not> completed tk" and "deadline tk = Some s"
    and "parse_deadline s = Some dl"
    and "scan_branch (now env) (dt_sub dl (now env)) (reminded_at tk) \<noteq> None"
    and "reminder_kind_of (dt_sub dl (now env)) = Some k"
    and "h_lookup h u t = Some a'" and "objs h a' = Some tk'" and "\<not> completed tk'"
    and "delivers env u t" and "h_await sched h = (sched1, h1)"
  shows "h_check_task env u (t, a) sched h =
           (None, sched1, h_append a' (strftime_minute (sent_at env u t)) h1, [(u, t, k)]) \<and>
         (a' \<noteq> a \<longrightarrow> objs (h_append a' (strftime_minute (sent_at env u t)) h1) a = objs h1 a)"
proof -
  have "h_send_reminder env u t (dt_sub dl (now env)) sched h =
          (None, sched1, h_append a' (strftime_minute (sent_at env u t)) h1, [(u, t, k)])"
    using assms(6-11) by (simp add: h_send_reminder_def)
  then have "h_check_task env u (t, a) sched h =
          (None, sched1, h_append a' (strftime_minute (sent_at env u t)) h1, [(u, t, k)])"
    using assms(1-5) by (auto simp: h_check_task_def Let_def split: option.split)
  moreover have "a' \<noteq> a \<longrightarrow> objs (h_append a' (strftime_minute (sent_at env u t)) h1) a = objs h1 a"
    by (simp add: h_append_def)
  ultimately show ?thesis by blast
qed

theorem h_check_task_stale_reference_witness:
  "h_check_task (demo_env (clock 2030 1 1 9 0 0 0) (clock 2030 1 1 9 0 1 0)) 1 (''2'', 1) []
     \<lparr>hdict = [(1, [(''1'', 0), (''2'', 2)])],
      objs = [0 \<mapsto> report_task, 1 \<mapsto> slides_task,
              2 \<mapsto> new_task (Some ''Party'') (Some ''31.12.2030 20:00'') ''01.01.2030 09:00''],
      next_addr = 3\<rparr> =
   (None, [], h_append 2 (strftime_minute (clock 2030 1 1 9 0 1 0))
     \<lparr>hdict = [(1, [(''1'', 0), (''2'', 2)])],
      objs = [0 \<mapsto> report_task, 1 \<mapsto> slides_task,
              2 \<mapsto> new_task (Some ''Party'') (Some ''31.12.2030 20:00'') ''01.01.2030 09:00''],
      next_addr = 3\<rparr>, [(1, ''2'', Due1h)])"
proof -
  let ?h = "\<lparr>hdict = [(1, [(''1'', 0::nat), (''2'', 2)])],
      objs = [0 \<mapsto> report_task, 1 \<mapsto> slides_task,
              2 \<mapsto> new_task (Some ''Party'') (Some ''31.12.2030 20:00'') ''01.01.2030 09:00''],
      next_addr = 3\<rparr>"
  let ?e = "demo_env (clock 2030 1 1 9 0 0 0) (clock 2030 1 1 9 0 1 0)"
  have p: "parse_deadline ''01.01.2030 10:00'' = Some (clock 2030 1 1 10 0 0 0)"
    by (simp add: strptime_eval clock_def)
  have "h_check_task ?e 1 (''2'', 1) [] ?h =
          (None, [], h_append 2 (strftime_minute (sent_at ?e 1 ''2'')) ?h, [(1, ''2'', Due1h)]) \<and>
        (2 \<noteq> (1::nat) \<longrightarrow> objs (h_append 2 (strftime_minute (sent_at ?e 1 ''2'')) ?h) 1 = objs ?h 1)"
    by (rule h_check_task_stale_reference [OF _ _ _ p, where tk = slides_task
          and tk' = "new_task (Some ''Party'') (Some ''31.12.2030 20:00'') ''01.01.2030 09:00''"])
       (simp_all add: slides_task_def new_task_def h_lookup_def demo_env_def scan_branch_def
         reminder_kind_of_def datetime_eval clock_def Let_def sublist_code h_await_def)
  then show ?thesis by (simp add: demo_env_def)
qed

end
