(* ===== verification/Spec2Isabelle.thy ===== *)
theory Spec2Isabelle
  imports AsyncScan
begin

text \<open>
  A verification model of the task-reminder Telegram bot of \<^verbatim>\<open>src/main.py\<close>.

  \<^bold>\<open>The program.\<close> The bot keeps an in-memory dictionary \<^verbatim>\<open>tasks\<close> of every user's tasks
  (the task store).  A background coroutine \<^verbatim>\<open>check_deadlines\<close> scans all tasks every
  30 seconds and sends reminders (the reminder scanner).  The aiogram handlers drive a
  dialog of inline keyboards: name, month, day, hour, then minute or "all day".  Its last
  step creates a task, or would edit a deadline.  All of it runs on one asyncio thread, so
  the scanner and the handlers interleave at \<^verbatim>\<open>await\<close> points.

  \<^bold>\<open>Theories and what they model.\<close>
  \<^item> \<open>Prelude\<close>: Python exceptions as the datatype \<open>py_error\<close>.  It also models
    \<^verbatim>\<open>str(n)\<close>, \<^verbatim>\<open>f"{n:02d}"\<close> and \<^verbatim>\<open>int(s)\<close> (\<open>show_nat\<close>, \<open>pad2\<close>,
    \<open>read_digits\<close>) with their round trip, and \<^verbatim>\<open>str.split()\<close> and \<^verbatim>\<open>str.strip()\<close>
    (\<open>py_split\<close>, \<open>py_strip\<close>).
  \<^item> \<open>Datetime\<close>: the naive datetimes \<^verbatim>\<open>datetime.now()\<close> returns, with CPython's
    \<^verbatim>\<open>_ymd2ord\<close>.
    \<^item> \<^verbatim>\<open>deadline - now\<close> is an exact count of microseconds (\<open>dt_sub\<close>).
    \<^item> The normalised \<^verbatim>\<open>.days\<close> and \<^verbatim>\<open>.seconds\<close> fields are \<open>td_days\<close> and
      \<open>td_seconds\<close>.
    \<^item> The \<^verbatim>\<open>strftime\<close> probes of the gates are \<open>strftime_date\<close>, \<open>strftime_hour\<close>
      and \<open>strftime_minute\<close>.
  \<^item> \<open>Strptime\<close>: \<^verbatim>\<open>datetime.strptime(s, "%d.%m.%Y %H:%M")\<close> as CPython runs it.
    The compiled regular expression is a list-of-successes matcher, followed by the
    unconverted-data check and the date check.  The scanner's date-only rule, lines
    138--143, is \<open>parse_deadline\<close>.
  \<^item> \<open>TaskStore\<close>: the dict \<^verbatim>\<open>tasks\<close> as nested association lists, which keep
    Python's insertion order.
    \<^item> Its mutations are \<open>add_task\<close>, \<open>toggle_task\<close>, \<open>rename_task\<close>,
      \<open>delete_task\<close>, \<open>set_deadline\<close> and \<open>record_reminder\<close>.
    \<^item> The invariant \<open>wf_store\<close> says keys are distinct at both levels.
    \<^item> The abstraction \<open>abs_store\<close> maps the store to user \<open>\<Rightarrow>\<close> task id
      \<open>\<rightharpoonup>\<close> task.
  \<^item> \<open>Reminder\<close>: \<^verbatim>\<open>send_reminder\<close> and \<^verbatim>\<open>check_deadlines\<close>, lines 75--174.
    \<^item> The definitions are \<open>send_reminder\<close>, the gated windows \<open>scan_branch\<close>, one task
      \<open>check_task\<close>, the two loops \<open>scan_tasks\<close> and \<open>scan_users\<close>, and one pass
      \<open>scan_pass\<close>.
    \<^item> The \<^verbatim>\<open>while True\<close> loop is \<open>scan_run\<close>, observed over any finite list of
      passes.
    \<^item> The clock, the time of each send and the outcome of each send are inputs
      (\<open>scan_env\<close>).
    \<^item> An exception other than \<^verbatim>\<open>ValueError\<close> ends the loop.  It is returned with the
      effects made before it.
  \<^item> \<open>Calendar\<close>: what the keyboards offer and the payloads their buttons carry.
    \<^item> The keyboards are \<open>get_month_keyboard\<close> (with its two clock readings),
      \<open>get_day_keyboard\<close>, \<open>hour_options\<close> and \<open>minute_options\<close>.
    \<^item> The deadline strings the dialog builds are \<open>date_str\<close> and \<open>time_str\<close>.
    \<^item> Callback payloads are read with \<open>py_split_sep\<close> and \<open>py_int\<close>.
  \<^item> \<open>Dialog\<close>: every message and callback handler, as one \<open>step\<close> on \<open>bot\<close>.
    \<^item> \<open>bot\<close> is the store plus each user's aiogram FSM context, a state and the data
      dict \<open>fsm_data\<close>.
    \<^item> Events are routed like aiogram's dispatcher, to the first registered handler whose
      filters match (\<open>handle_message\<close>, \<open>dispatch_callback\<close>).
    \<^item> \<open>run\<close> is a sequence of events, and \<open>reachable\<close> is the set of states reached
      from \<open>init_bot\<close>.
    \<^item> The task list that \<^verbatim>\<open>get_task_keyboard\<close> shows is \<open>task_listing\<close>.  The
      buttons under a task card are \<open>task_buttons\<close>, and the reply keyboard is
      \<open>main_keyboard\<close>.
    \<^item> \<open>typed_session\<close> states which fields of the untyped data dict belong together.
  \<^item> \<open>TaskView\<close>: the task card of \<^verbatim>\<open>process_view_task\<close> and
    \<^verbatim>\<open>process_complete_task\<close>.  Each handler's copy of the remaining-time code is its
    own definition (\<open>view_time_status\<close>, \<open>complete_time_status\<close>, sharing nothing), and
    the card's fields are \<open>task_card\<close>.
  \<^item> \<open>AsyncScan\<close>: the store as a heap of task objects (\<open>heap_store\<close>): a dict of dicts
    of references plus the objects.
    \<^item> The handlers' store operations are in place (\<open>h_add_task\<close>,
      \<open>h_modify_task\<close>, \<open>h_delete_task\<close>, \<open>h_ensure_user\<close>).  \<open>abs_h\<close> maps a heap
      to the value store of \<open>TaskStore\<close>.
    \<^item> The pass \<open>h_scan_pass\<close> reads the snapshot's references when it reaches them.  It
      runs the next batch of a schedule of handler effects at every \<^verbatim>\<open>await\<close> of
      \<^verbatim>\<open>send_message\<close> (\<open>h_await\<close>).
    \<^item> It loops over the live users dict with CPython's iterator size check
      (\<open>h_scan_users\<close>, a \<open>partial_function (option)\<close>).
  \<^item> This theory: the whole bot as an interleaving of user events and scanner passes
    (\<open>sys_step\<close>, \<open>sys_reachable\<close>), and the properties that span the dialog and the
    scanner.

  \<^bold>\<open>What is proved.\<close>
  \<^item> Scanner:
    \<^item> a pass never reminds of a completed task (C1);
    \<^item> after a send is recorded, no pass in the same minute reminds of that task
      again (C2);
    \<^item> the one-hour window re-fires on every day before the deadline (C19);
    \<^item> records of other days never block the 24-hour window, so it fires on every date
      it covers (C20), while any record of today blocks it (C26);
    \<^item> in the last minute the 5-minute text is sent, or nothing (C21);
    \<^item> a due reminder whose send fails ends the pass and every later pass (C22);
    \<^item> every run keeps the store well-formed and only appends firing records (C23);
    \<^item> with passes at most 60 s apart the 5-minute window is never skipped (C27).
  \<^item> Parsing: an "All Day" deadline is read as that date at 23:59 (C3), and every
    deadline the dialog builds parses back to the picked date and time (C12).
  \<^item> Store:
    \<^item> its operations refine single-entry map updates (C4);
    \<^item> a double toggle is the identity (C5);
    \<^item> creation with dense ids is fresh (C6);
    \<^item> after any delete but the last, creation reuses an id still in use and
      overwrites that task (C7).
  \<^item> Calendar:
    \<^item> the exact month window (C8);
    \<^item> every day button is a valid date (C9);
    \<^item> February has 29 or 28 days (C10);
    \<^item> an hour passed between the two clock readings of the hour and minute keyboards
      gets only past minutes (C11);
    \<^item> the New Year race of the month keyboard's two clock readings (C13).
  \<^item> Dialog:
    \<^item> \<^verbatim>\<open>edit_\<close> shadows the edit handlers (C14), so no reachable state is in an edit
      flow (C15);
    \<^item> cancel keeps the stale selection (C16);
    \<^item> "All Day" without a date stores a \<^verbatim>\<open>None\<close> deadline (C17);
    \<^item> picking a minute creates the task with the picked deadline (C18);
    \<^item> the day handler decodes the day keyboard's payloads (C25);
    \<^item> every reachable data dict is consistently typed (C33);
    \<^item> the task keyboards' buttons reach their handlers with the task id intact (C34).
  \<^item> Task card:
    \<^item> the two copies of the remaining-time code agree (C28);
    \<^item> every number shown is in range (C29);
    \<^item> the card shows the remaining time truncated to the minute (C30).
  \<^item> Scanner interleaved with handlers:
    \<^item> a pass raises \<^verbatim>\<open>RuntimeError\<close> exactly when the number of users changed (C31);
    \<^item> the reminder is chosen from the snapshot's object but recorded on whatever object
      the id names at the send, a different task once the id was reused (C32).
    \<^item> Library lemmas of \<open>AsyncScan\<close> support these: the in-place operations refine the
      \<open>TaskStore\<close> operations and keep the heap well formed, a pass with no interleaving
      equals the atomic pass of \<open>Reminder\<close>, and every pass returns.
  \<^item> Across components: a \<^verbatim>\<open>None\<close> deadline stored by "All Day" stops every later
    pass (C24).

  \<^bold>\<open>Choices of the model.\<close>
  \<^item> No fuel is needed.
    \<^item> Every loop over a list or a \<^verbatim>\<open>range\<close> is structural recursion, or
      \<open>py_range\<close> with a measure.
    \<^item> The loop over the live users dict may in principle run on while handlers add users.
      It is a \<open>partial_function (option)\<close>, and the lemma \<open>h_scan_pass_terminates\<close>
      proves that it always returns, by induction on the number of users left before the
      size the loop started with.
    \<^item> The unbounded scanner loop is observed over arbitrary finite lists of passes, and
      every property of it is stated for all such lists.
  \<^item> In \<open>AsyncScan\<close> the handlers that run during a send are their effects on the store
    (\<open>store_op\<close>).  Their effects on the FSM contexts do not touch state the scanner
    reads.
  \<^item> Python ints that are never negative (days, months, years, minutes, list lengths) are
    \<open>nat\<close>.  Timedeltas and user ids are \<open>int\<close>.
  \<^item> The emoji texts of the reply keyboard lie outside the code points a \<open>string\<close>
    holds here, so they are inputs of their own.
  \<^item> \<^verbatim>\<open>int()\<close> on payload fields accepts digits only; payloads the keyboards build
    contain nothing else.
  \<^item> aiogram 3's update objects are frozen pydantic models: assigning
    \<^verbatim>\<open>callback.data\<close> in \<^verbatim>\<open>process_back_to_time\<close> raises \<^verbatim>\<open>ValidationError\<close>,
    a \<^verbatim>\<open>ValueError\<close>.

  \<^bold>\<open>Not modelled.\<close>
  \<^item> The texts of the messages with their emoji and HTML markup, the keyboard labels and
    the row layouts (\<^verbatim>\<open>kb.adjust\<close>).  These are presentation and change no state;
    the payloads and the reply buttons of every keyboard are modelled.
  \<^item> The Telegram transport, logging, and \<^verbatim>\<open>Bot\<close>/\<^verbatim>\<open>Dispatcher\<close> construction.
    These are framework glue.
  \<^item> In \<open>Spec2Isabelle\<close> a pass is one atomic action of \<open>sys_step\<close>.  The interleaving
    inside a pass is the subject of \<open>AsyncScan\<close>, for the scanner and the store.
\<close>

section \<open>The bot as an interleaving of user events and scanner passes\<close>

text \<open>The state shared by the dialog handlers and the background scanner: the bot (store and
  FSM contexts) and whether \<^verbatim>\<open>check_deadlines\<close> is still running.  A scanner pass is one
  atomic action here; an exception ends the scanner for good.\<close>

record system =
  sys_bot :: bot
  scanner_alive :: bool

datatype action = UserEvent datetime event | ScannerPass scan_env

definition sys_step :: "string \<Rightarrow> action \<Rightarrow> system \<Rightarrow> system" where
  "sys_step me a s =
     (case a of
        UserEvent tn ev \<Rightarrow> s\<lparr>sys_bot := snd (step me tn ev (sys_bot s))\<rparr>
      | ScannerPass e \<Rightarrow>
          (if scanner_alive s
           then (case scan_pass e (tasks (sys_bot s)) of
                   (r, st', ns) \<Rightarrow> s\<lparr>sys_bot := (sys_bot s)\<lparr>tasks := st'\<rparr>, scanner_alive := (r = None)\<rparr>)
           else s))"

inductive sys_reachable :: "system \<Rightarrow> bool" where
  start: "sys_reachable \<lparr>sys_bot = init_bot, scanner_alive = True\<rparr>"
| act: "sys_reachable s \<Longrightarrow> sys_reachable (sys_step me a s)"

section \<open>Properties across components\<close>

text \<open>C24. Pressing \<^verbatim>\<open>All Day\<close> when the context holds no date stops the reminder
  scanner: every later pass over the resulting store ends with an exception (the
  \<^verbatim>\<open>AttributeError\<close> of the task with deadline \<^verbatim>\<open>None\<close>, or an earlier one), so after
  it no user gets reminders.\<close>

theorem all_day_stops_scanner:
  assumes "data_date_str (fsm_data (sessions b u)) = None"
    and "is_editing (fsm_data (sessions b u)) \<noteq> Some True"
  shows "fst (scan_pass env (tasks (snd (step me tn (CallbackQuery u ''time_all_day'') b)))) \<noteq> None"
proof -
  let ?nm = "task_name (fsm_data (sessions b u))"
  let ?r = "add_task u ?nm None (strftime_minute tn) (ensure_user u (tasks b))"
  have st: "tasks (snd (step me tn (CallbackQuery u ''time_all_day'') b)) = snd ?r"
    using assms by (simp add: step_callback [OF dispatch_all_day] run_callback_def
        process_time_all_day_def Let_def case_prod_beta)
  have tk: "abs_store (snd ?r) u (fst ?r) = Some (new_task ?nm None (strftime_minute tn))"
    by (rule add_task_stores)
  show ?thesis unfolding st scan_pass_def
    by (rule scan_users_raises [OF abs_store_Some_user [OF tk] tk]) (simp_all add: new_task_def)
qed

theorem all_day_stops_scanner_witness:
  "fst (scan_pass (demo_env (clock 2030 1 1 9 0 0 0) (clock 2030 1 1 9 0 1 0))
     (tasks (snd (step ''TaskBot'' pick_now (CallbackQuery 5 ''time_all_day'') init_bot)))) \<noteq> None"
  by (rule all_day_stops_scanner) (simp_all add: init_bot_def empty_session_def empty_data_def)

text \<open>The interleaving model keeps the store well-formed and every context out of the
  edit flows, from the invariants of the handlers and of a pass.\<close>

lemma sys_reachable_invariant:
  "sys_reachable s \<Longrightarrow> wf_store (tasks (sys_bot s)) \<and> (\<forall>u. no_edit_session (sessions (sys_bot s) u))"
proof (induction rule: sys_reachable.induct)
  case start
  then show ?case by (simp add: init_bot_def wf_store_def)
next
  case (act s me a)
  show ?case
  proof (cases a)
    case (UserEvent tn ev)
    then show ?thesis using act.IH wf_step no_edit_step by (simp add: sys_step_def)
  next
    case (ScannerPass e)
    obtain r st' ns where p: "scan_pass e (tasks (sys_bot s)) = (r, st', ns)"
      by (cases "scan_pass e (tasks (sys_bot s))") auto
    then show ?thesis using act.IH ScannerPass wf_scan_pass [OF p] by (simp add: sys_step_def)
  qed
qed

end
